(* ===== verification/Prelude.thy ===== *)
theory Prelude
  imports Main "HOL-Library.Word" "HOL-Library.Monad_Syntax"
begin

text \<open>
  Shared vocabulary of the development: the machine integer types of the C++ sources, the
  convention for undefined behaviour, and the generic facts on lists and words that several
  components use.

  A definition of type \<open>'a option\<close> whose text says so returns \<^const>\<open>None\<close> exactly where the C++
  program would execute undefined behaviour (an out-of-range vector access, a null
  dereference, a division by zero) or would not return; every other outcome is
  \<^const>\<open>Some\<close>.  Error returns and exceptions of the source are values, never \<^const>\<open>None\<close>.
\<close>

type_synonym u8 = "8 word"
type_synonym u16 = "16 word"
type_synonym u32 = "32 word"
type_synonym u64 = "64 word"

text \<open>
  \<open>int32_t\<close> and \<open>int64_t\<close> values are words read through \<^const>\<open>sint\<close>.  A signed sum or product that
  overflows, formally undefined in C++, is given its two's-complement value; a result about
  signed arithmetic is therefore one modulo the width, and agrees with the integers wherever
  nothing overflows.
\<close>

type_synonym i32 = "32 word"
type_synonym i64 = "64 word"

named_theorems cxx_defs \<open>definitions of the model that component proofs unfold\<close>
named_theorems invar_intros \<open>preservation of component invariants\<close>

text \<open>
  Outcome of code guarded by the \<open>CHECK\<close> macros of \<^verbatim>\<open>src/logger/log.h\<close> in a release
  build: the first check that fails logs at FATAL level with its text and the process exits
  (theory \<open>Logger\<close> models that path of \<open>Logger::Log\<close>), otherwise the code runs on.
\<close>

datatype 'a checked = Fatal string | Passed 'a

text \<open>The value of a \<open>char\<close> promoted to \<open>int\<close>: \<open>char\<close> is signed on the project's targets.\<close>

definition char_val :: "char \<Rightarrow> int" where
  "char_val c = (let n = of_char c :: nat in if n < 128 then int n else int n - 256)"

subsection \<open>Checked vector access\<close>

text \<open>\<open>v[i]\<close> and \<open>v[i] = x\<close> on a \<open>std::vector\<close>: undefined behaviour out of range.\<close>

definition vget :: "'a list \<Rightarrow> nat \<Rightarrow> 'a option" where
  "vget xs i = (if i < length xs then Some (xs ! i) else None)"

definition vset :: "'a list \<Rightarrow> nat \<Rightarrow> 'a \<Rightarrow> 'a list option" where
  "vset xs i x = (if i < length xs then Some (xs[i := x]) else None)"

lemma vget_Some [simp]: "i < length xs \<Longrightarrow> vget xs i = Some (xs ! i)"
  by (simp add: vget_def)

lemma vget_None [simp]: "length xs \<le> i \<Longrightarrow> vget xs i = None"
  by (simp add: vget_def)

lemma vset_Some [simp]: "i < length xs \<Longrightarrow> vset xs i x = Some (xs[i := x])"
  by (simp add: vset_def)

lemma vset_None [simp]: "length xs \<le> i \<Longrightarrow> vset xs i x = None"
  by (simp add: vset_def)

lemma vget_eq_Some_iff: "vget xs i = Some x \<longleftrightarrow> i < length xs \<and> x = xs ! i"
  by (auto simp: vget_def)

subsection \<open>Option bind\<close>

lemma bind_eq_Some_iff:
  "Option.bind m f = Some y \<longleftrightarrow> (\<exists>x. m = Some x \<and> f x = Some y)"
  by (cases m) auto

subsection \<open>Words as naturals\<close>

lemma unat_add_lt:
  fixes a b :: "'a::len word"
  assumes "unat a + unat b < 2 ^ LENGTH('a)"
  shows "unat (a + b) = unat a + unat b"
  using assms by (simp add: unat_word_ariths)

lemma unat_Suc_lt:
  fixes a :: "'a::len word"
  assumes "Suc (unat a) < 2 ^ LENGTH('a)"
  shows "unat (a + 1) = Suc (unat a)"
proof -
  have "LENGTH('a) \<noteq> 0" by simp
  then have "(1::nat) < 2 ^ LENGTH('a)" by (metis one_less_power one_less_numeral_iff semiring_norm(76) neq0_conv)
  then have "unat (1 :: 'a word) = 1" by (simp add: unat_1)
  with assms show ?thesis by (simp add: unat_word_ariths)
qed

lemma Suc_unat_lt:
  fixes a :: "'a::len word"
  assumes "a \<noteq> - 1"
  shows "Suc (unat a) < 2 ^ LENGTH('a)"
proof (rule ccontr)
  assume "\<not> ?thesis"
  moreover have "unat a < 2 ^ LENGTH('a)" by (rule unsigned_less)
  ultimately have "unat a = 2 ^ LENGTH('a) - 1" by linarith
  then have "unat a = unat (- 1 :: 'a word)" by (simp add: unsigned_minus_1_eq_mask mask_eq_exp_minus_1)
  with assms show False by (simp only: word_unat_eq_iff)
qed

subsection \<open>Lists\<close>

lemma map_upt_Suc_right: "map f [m..<Suc n] = (if m \<le> n then map f [m..<n] @ [f n] else [])"
  by simp

lemma map_nth_shift:
  assumes "\<And>i. i < n \<Longrightarrow> f i = g (Suc i)"
  shows "map f [0..<n] = map g [1..<Suc n]"
proof -
  have "map g [1..<Suc n] = map (g \<circ> Suc) [0..<n]"
    by (metis One_nat_def map_Suc_upt map_map)
  then show ?thesis using assms by simp
qed

lemma takeWhile_dropWhile_length [simp]:
  "length (takeWhile P xs) + length (dropWhile P xs) = length xs"
  by (metis length_append takeWhile_dropWhile_id)

lemma unat_word_of_int:
  "unat (word_of_int i :: 'a::len word) = nat (i mod 2 ^ LENGTH('a))"
  by (simp add: unat_eq_nat_uint uint_word_of_int)

subsection \<open>Maps as association lists\<close>

text \<open>
  The interface of a map kept as a list of entries: \<open>put\<close> sets an entry and keeps the representation
  invariant \<open>ok\<close>.  What filling a map from a list of entries gives follows.
\<close>

definition put_list :: "('k \<Rightarrow> 'v \<Rightarrow> 'm \<Rightarrow> 'm) \<Rightarrow> ('k \<times> 'v) list \<Rightarrow> 'm \<Rightarrow> 'm" where
  "put_list put ps m = fold (\<lambda>(k, x). put k x) ps m"

lemma put_list_Nil [simp]: "put_list put [] m = m"
  by (simp add: put_list_def)

lemma put_list_Cons [simp]: "put_list put ((k, x) # ps) m = put_list put ps (put k x m)"
  by (simp add: put_list_def)

locale entry_map =
  fixes put :: "'k \<Rightarrow> 'v \<Rightarrow> ('k \<times> 'v) list \<Rightarrow> ('k \<times> 'v) list"
    and ok :: "('k \<times> 'v) list \<Rightarrow> bool"
  assumes ok_Nil: "ok []"
    and ok_put: "ok m \<Longrightarrow> ok (put k v m)"
    and map_of_put: "ok m \<Longrightarrow> map_of (put k v m) = (map_of m)(k \<mapsto> v)"
    and keys_put: "fst ` set (put k v m) = insert k (fst ` set m)"
begin

lemma put_list_ok: "ok m \<Longrightarrow> ok (put_list put ps m)"
  by (induction ps arbitrary: m) (auto simp: ok_put)

lemma keys_put_list: "fst ` set (put_list put ps m) = fst ` set ps \<union> fst ` set m"
proof (induction ps arbitrary: m)
  case (Cons p ps)
  then show ?case using keys_put [of "fst p" "snd p" m] by (cases p) simp
qed simp

lemma put_list_not_Nil: "ps \<noteq> [] \<Longrightarrow> put_list put ps m \<noteq> []"
  using keys_put_list [of ps m] by (cases ps) auto

lemma put_list_other: "ok m \<Longrightarrow> k \<notin> fst ` set ps \<Longrightarrow> map_of (put_list put ps m) k = map_of m k"
  by (induction ps arbitrary: m) (auto simp: ok_put map_of_put)

lemma put_list_entry: "ok m \<Longrightarrow> distinct (map fst ps) \<Longrightarrow> (k, x) \<in> set ps \<Longrightarrow> map_of (put_list put ps m) k = Some x"
proof (induction ps arbitrary: m)
  case (Cons p ps)
  obtain k' x' where p: "p = (k', x')" by (cases p)
  show ?case
  proof (cases "p = (k, x)")
    case True
    then show ?thesis using Cons.prems put_list_other [of "put k x m" k ps] by (simp add: ok_put map_of_put image_iff)
  next
    case False
    then show ?thesis using Cons.prems Cons.IH [of "put k' x' m"] p by (auto simp: ok_put)
  qed
qed simp

end

end
