(* ===== verification/Ring_Buffer_Queue.thy ===== *)
theory Ring_Buffer_Queue
  imports Prelude
begin

text \<open>
  The bounded ring-buffer queue of \<^verbatim>\<open>src/data_structure/ring_buffer_queue/queue.h\<close>: class
  \<open>Queue\<close> with its four members, the constructor and the four operations, at their machine
  widths.  The \<open>std::cout\<close> diagnostics of the full and empty branches are not part of the model.
  The interface \<open>bounded_fifo\<close> states what a bounded first-in first-out queue promises; the
  operations are shown to implement it.
\<close>

subsection \<open>State and operations\<close>

record queue =
  q_data :: "i32 list"
  q_capacity :: u32
  q_front :: u32
  q_rear :: u32

definition Queue :: "u32 \<Rightarrow> queue" where
  "Queue capacity =
     \<lparr> q_data = replicate (unat (capacity + 1)) 0, q_capacity = capacity + 1, q_front = 0, q_rear = 0 \<rparr>"

definition IsEmpty :: "queue \<Rightarrow> bool" where
  "IsEmpty q \<longleftrightarrow> q_front q = q_rear q"

text \<open>\<open>%\<close> by a zero \<open>q_capacity\<close> is undefined behaviour.\<close>

definition IsFull :: "queue \<Rightarrow> bool option" where
  "IsFull q = (if q_capacity q = 0 then None
               else Some ((q_rear q + 1) mod q_capacity q = q_front q))"

definition Enqueue :: "u32 \<Rightarrow> queue \<Rightarrow> (bool \<times> queue) option" where
  "Enqueue elem q = do {
     full \<leftarrow> IsFull q;
     if full then Some (False, q)
     else do {
       d \<leftarrow> vset (q_data q) (unat (q_rear q)) elem;
       Some (True, q\<lparr>q_data := d, q_rear := (q_rear q + 1) mod q_capacity q\<rparr>)
     }
   }"

text \<open>An empty queue returns \<open>-1\<close>, which the result type \<open>uint32_t\<close> turns into \<open>0xFFFFFFFF\<close>.\<close>

definition Dequeue :: "queue \<Rightarrow> (u32 \<times> queue) option" where
  "Dequeue q =
     (if IsEmpty q then Some (- 1, q)
      else do {
        elem \<leftarrow> vget (q_data q) (unat (q_front q));
        if q_capacity q = 0 then None
        else Some (elem, q\<lparr>q_front := (q_front q + 1) mod q_capacity q\<rparr>)
      })"

subsection \<open>The contract of a bounded first-in first-out queue\<close>

locale bounded_fifo =
  fixes enq :: "'a \<Rightarrow> 'q \<Rightarrow> (bool \<times> 'q) option"
    and deq :: "'q \<Rightarrow> ('a \<times> 'q) option"
    and is_empty :: "'q \<Rightarrow> bool"
    and is_full :: "'q \<Rightarrow> bool option"
    and contents :: "'q \<Rightarrow> 'a list"
    and bound :: "'q \<Rightarrow> nat"
    and invar :: "'q \<Rightarrow> bool"
    and dflt :: 'a
  assumes length_le_bound: "invar q \<Longrightarrow> length (contents q) \<le> bound q"
    and is_empty_iff: "invar q \<Longrightarrow> is_empty q \<longleftrightarrow> contents q = []"
    and is_full_iff: "invar q \<Longrightarrow> is_full q = Some (length (contents q) = bound q)"
    and enq_full: "invar q \<Longrightarrow> length (contents q) = bound q \<Longrightarrow> enq x q = Some (False, q)"
    and enq_room: "invar q \<Longrightarrow> length (contents q) < bound q \<Longrightarrow>
      \<exists>q'. enq x q = Some (True, q') \<and> invar q' \<and> bound q' = bound q \<and>
           contents q' = contents q @ [x]"
    and deq_empty: "invar q \<Longrightarrow> contents q = [] \<Longrightarrow> deq q = Some (dflt, q)"
    and deq_Cons: "invar q \<Longrightarrow> contents q = x # xs \<Longrightarrow>
      \<exists>q'. deq q = Some (x, q') \<and> invar q' \<and> bound q' = bound q \<and> contents q' = xs"

datatype 'a fifo_op = Enq 'a | Deq
datatype 'a fifo_res = Accepted bool | Got 'a

text \<open>The specification machine on lists: \<open>n\<close> is the bound, \<open>d\<close> the value of a failed take.\<close>

fun fifo_spec :: "nat \<Rightarrow> 'a \<Rightarrow> 'a list \<Rightarrow> 'a fifo_op list \<Rightarrow> 'a fifo_res list \<times> 'a list" where
  "fifo_spec n d xs [] = ([], xs)"
| "fifo_spec n d xs (Enq x # ops) =
     (let ok = length xs < n; (rs, ys) = fifo_spec n d (if ok then xs @ [x] else xs) ops
      in (Accepted ok # rs, ys))"
| "fifo_spec n d xs (Deq # ops) =
     (let (rs, ys) = fifo_spec n d (tl xs) ops
      in (Got (if xs = [] then d else hd xs) # rs, ys))"

fun fifo_run :: "('a \<Rightarrow> 'q \<Rightarrow> (bool \<times> 'q) option) \<Rightarrow> ('q \<Rightarrow> ('a \<times> 'q) option) \<Rightarrow>
    'q \<Rightarrow> 'a fifo_op list \<Rightarrow> ('a fifo_res list \<times> 'q) option" where
  "fifo_run enq deq q [] = Some ([], q)"
| "fifo_run enq deq q (Enq x # ops) = do {
     (ok, q') \<leftarrow> enq x q;
     (rs, q'') \<leftarrow> fifo_run enq deq q' ops;
     Some (Accepted ok # rs, q'')
   }"
| "fifo_run enq deq q (Deq # ops) = do {
     (x, q') \<leftarrow> deq q;
     (rs, q'') \<leftarrow> fifo_run enq deq q' ops;
     Some (Got x # rs, q'')
   }"

context bounded_fifo
begin

lemma run_refines:
  assumes "invar q"
  shows "\<exists>q'. fifo_run enq deq q ops
              = Some (fst (fifo_spec (bound q) dflt (contents q) ops), q') \<and>
            invar q' \<and> bound q' = bound q \<and>
            contents q' = snd (fifo_spec (bound q) dflt (contents q) ops)"
  using assms
proof (induction ops arbitrary: q)
  case Nil
  then show ?case by simp
next
  case (Cons op ops)
  show ?case
  proof (cases op)
    case (Enq x)
    show ?thesis
    proof (cases "length (contents q) < bound q")
      case True
      with Cons.prems obtain q1 where q1: "enq x q = Some (True, q1)" "invar q1"
          "bound q1 = bound q" "contents q1 = contents q @ [x]"
        using enq_room by blast
      from Cons.IH [OF q1(2)] q1 True Enq show ?thesis
        by (auto simp: Let_def split_beta)
    next
      case False
      with length_le_bound [OF Cons.prems] have "length (contents q) = bound q" by simp
      with Cons.prems have "enq x q = Some (False, q)" by (rule enq_full)
      with Cons.IH [OF Cons.prems] False Enq show ?thesis
        by (auto simp: Let_def split_beta)
    qed
  next
    case Deq
    show ?thesis
    proof (cases "contents q")
      case Nil
      with Cons.prems have "deq q = Some (dflt, q)" by (rule deq_empty)
      with Cons.IH [OF Cons.prems] Nil Deq show ?thesis
        by (auto simp: Let_def split_beta)
    next
      case (Cons x xs)
      with Cons.prems obtain q1 where q1: "deq q = Some (x, q1)" "invar q1"
          "bound q1 = bound q" "contents q1 = xs"
        using deq_Cons by blast
      from Cons.IH [OF q1(2)] q1 Cons Deq show ?thesis
        by (auto simp: Let_def split_beta)
    qed
  qed
qed

end

subsection \<open>Representation invariant and abstraction\<close>

definition queue_size :: "queue \<Rightarrow> nat" where
  "queue_size q = (unat (q_rear q) + unat (q_capacity q) - unat (q_front q)) mod unat (q_capacity q)"

definition queue_contents :: "queue \<Rightarrow> u32 list" where
  "queue_contents q =
     map (\<lambda>i. q_data q ! ((unat (q_front q) + i) mod unat (q_capacity q))) [0..<queue_size q]"

definition queue_bound :: "queue \<Rightarrow> nat" where
  "queue_bound q = unat (q_capacity q) - 1"

definition queue_inv :: "queue \<Rightarrow> bool" where
  "queue_inv q \<longleftrightarrow> length (q_data q) = unat (q_capacity q) \<and>
     q_front q < q_capacity q \<and> q_rear q < q_capacity q"


subsection \<open>Index arithmetic of the ring\<close>

lemma ring_next: "x < C \<Longrightarrow> Suc x mod C = (if Suc x = C then 0 else Suc x)" for x C :: nat
  by auto

lemma ring_dist:
  "f < C \<Longrightarrow> r < C \<Longrightarrow> (r + C - f) mod C = (if f \<le> r then r - f else r + C - f)" for f r C :: nat
  by (auto simp: mod_if)

lemma ring_index:
  "f < C \<Longrightarrow> i < C \<Longrightarrow> (f + i) mod C = (if f + i < C then f + i else f + i - C)" for f i C :: nat
  by (auto simp: mod_if)

lemma unat_next:
  assumes "x < (c :: u32)"
  shows "unat ((x + 1) mod c) = Suc (unat x) mod unat c"
proof -
  have "unat x < unat c" using assms by (simp add: word_less_nat_alt)
  moreover have "unat c < 2 ^ 32" using unsigned_less [of c] by simp
  ultimately have "unat (x + 1) = Suc (unat x)" by (intro unat_Suc_lt) simp
  then show ?thesis by (simp add: unat_mod_distrib)
qed

lemma queue_inv_bounds:
  assumes "queue_inv q"
  shows "unat (q_front q) < unat (q_capacity q)" "unat (q_rear q) < unat (q_capacity q)"
    "length (q_data q) = unat (q_capacity q)" "q_capacity q \<noteq> 0"
  using assms by (auto simp: queue_inv_def word_less_nat_alt)

lemma queue_size_eq:
  assumes "queue_inv q"
  shows "queue_size q = (if unat (q_front q) \<le> unat (q_rear q) then unat (q_rear q) - unat (q_front q)
     else unat (q_rear q) + unat (q_capacity q) - unat (q_front q))"
  using queue_inv_bounds [OF assms] by (simp add: queue_size_def ring_dist)

lemma queue_size_lt: "queue_inv q \<Longrightarrow> queue_size q < unat (q_capacity q)"
  using queue_inv_bounds [of q] by (auto simp: queue_size_eq)

lemma length_queue_contents [simp]: "length (queue_contents q) = queue_size q"
  by (simp add: queue_contents_def)

lemma IsFull_iff:
  assumes "queue_inv q"
  shows "IsFull q = Some (queue_size q = queue_bound q)"
proof -
  note b = queue_inv_bounds [OF assms]
  have "(q_rear q + 1) mod q_capacity q = q_front q \<longleftrightarrow>
        Suc (unat (q_rear q)) mod unat (q_capacity q) = unat (q_front q)"
    using assms by (simp add: word_unat_eq_iff unat_next queue_inv_def)
  also have "\<dots> \<longleftrightarrow> queue_size q = queue_bound q"
    using b(1,2) by (auto simp: queue_size_eq [OF assms] queue_bound_def ring_next)
  finally show ?thesis using b(4) by (simp add: IsFull_def)
qed

lemma IsEmpty_iff: "queue_inv q \<Longrightarrow> IsEmpty q \<longleftrightarrow> queue_contents q = []"
  using queue_inv_bounds [of q] queue_size_eq [of q]
  by (auto simp: IsEmpty_def queue_contents_def word_unat_eq_iff split: if_splits)

lemma next_lt: "x < c \<Longrightarrow> (x + 1) mod c < (c :: u32)"
  using unat_next [of x c] by (simp add: word_less_nat_alt)

lemma Enqueue_room:
  fixes x :: u32
  assumes inv: "queue_inv q" and room: "queue_size q < queue_bound q"
  defines "q' \<equiv> q\<lparr>q_data := (q_data q)[unat (q_rear q) := x],
                   q_rear := (q_rear q + 1) mod q_capacity q\<rparr>"
  shows "Enqueue x q = Some (True, q') \<and> queue_inv q' \<and> queue_contents q' = queue_contents q @ [x]"
proof -
  note b = queue_inv_bounds [OF inv]
  let ?C = "unat (q_capacity q)" and ?f = "unat (q_front q)" and ?r = "unat (q_rear q)"
  have enq: "Enqueue x q = Some (True, q')"
    using room b by (simp add: Enqueue_def IsFull_iff [OF inv] q'_def)
  have inv': "queue_inv q'"
    using inv by (auto simp: queue_inv_def q'_def next_lt)
  have r': "unat (q_rear q') = Suc ?r mod ?C"
    using inv by (simp add: q'_def unat_next queue_inv_def)
  have size': "queue_size q' = Suc (queue_size q)"
    using room b r' queue_size_eq [OF inv'] queue_size_eq [OF inv]
    by (auto simp: queue_bound_def q'_def ring_next split: if_splits)
  have last: "(?f + queue_size q) mod ?C = ?r"
    using b queue_size_lt [OF inv] by (auto simp: ring_index queue_size_eq [OF inv])
  have old: "(?f + i) mod ?C \<noteq> ?r" if "i < queue_size q" for i
    using that b queue_size_lt [OF inv]
    by (auto simp: ring_index queue_size_eq [OF inv] split: if_splits)
  have same: "(q_data q)[?r := x] ! ((?f + i) mod ?C) = q_data q ! ((?f + i) mod ?C)"
    if "i < queue_size q" for i
    using old [OF that] by simp
  have "queue_contents q' = queue_contents q @ [x]"
    using last same b size' by (simp add: queue_contents_def q'_def)
  with enq inv' show ?thesis by simp
qed

lemma Dequeue_nonempty:
  assumes inv: "queue_inv q" and ne: "queue_contents q = x # xs"
  defines "q' \<equiv> q\<lparr>q_front := (q_front q + 1) mod q_capacity q\<rparr>"
  shows "Dequeue q = Some (x, q') \<and> queue_inv q' \<and> queue_contents q' = xs"
proof -
  note b = queue_inv_bounds [OF inv]
  let ?C = "unat (q_capacity q)" and ?f = "unat (q_front q)"
  from ne have pos: "0 < queue_size q" by (metis length_queue_contents length_greater_0_conv list.distinct(1))
  then obtain n where n: "queue_size q = Suc n" by (cases "queue_size q") auto
  have split: "queue_contents q = q_data q ! ?f # map (\<lambda>i. q_data q ! ((?f + Suc i) mod ?C)) [0..<n]"
    using b by (simp add: queue_contents_def n upt_conv_Cons map_Suc_upt [symmetric] del: upt_Suc)
  have deq: "Dequeue q = Some (x, q')"
    using ne b split IsEmpty_iff [OF inv] by (simp add: Dequeue_def q'_def)
  have inv': "queue_inv q'"
    using inv by (auto simp: queue_inv_def q'_def next_lt)
  have f': "unat (q_front q') = Suc ?f mod ?C"
    using inv by (simp add: q'_def unat_next queue_inv_def)
  have size': "queue_size q' = n"
    using n b f' queue_size_eq [OF inv'] queue_size_eq [OF inv]
    by (auto simp: q'_def ring_next split: if_splits)
  have "queue_contents q' = map (\<lambda>i. q_data q ! ((?f + Suc i) mod ?C)) [0..<n]"
    using f' size' by (simp add: queue_contents_def q'_def mod_add_left_eq [of "Suc ?f", simplified])
  with split ne deq inv' show ?thesis by simp
qed

interpretation ring: bounded_fifo Enqueue Dequeue IsEmpty IsFull queue_contents queue_bound queue_inv "- 1"
proof unfold_locales
  fix q :: queue and x :: u32 and xs :: "u32 list"
  assume inv: "queue_inv q"
  show "length (queue_contents q) \<le> queue_bound q"
    using queue_size_lt [OF inv] by (simp add: queue_bound_def)
  show "IsEmpty q \<longleftrightarrow> queue_contents q = []" by (rule IsEmpty_iff [OF inv])
  show "IsFull q = Some (length (queue_contents q) = queue_bound q)"
    by (simp add: IsFull_iff [OF inv])
  show "Enqueue x q = Some (False, q)" if "length (queue_contents q) = queue_bound q"
    using that by (simp add: Enqueue_def IsFull_iff [OF inv])
  show "\<exists>q'. Enqueue x q = Some (True, q') \<and> queue_inv q' \<and> queue_bound q' = queue_bound q \<and>
          queue_contents q' = queue_contents q @ [x]" if "length (queue_contents q) < queue_bound q"
    using Enqueue_room [OF inv, of x] that by (auto simp: queue_bound_def)
  show "Dequeue q = Some (- 1, q)" if "queue_contents q = []"
    using that IsEmpty_iff [OF inv] by (simp add: Dequeue_def)
  show "\<exists>q'. Dequeue q = Some (x, q') \<and> queue_inv q' \<and> queue_bound q' = queue_bound q \<and>
          queue_contents q' = xs" if "queue_contents q = x # xs"
    using Dequeue_nonempty [OF inv that] by (auto simp: queue_bound_def)
qed

lemma Queue_init:
  assumes "capacity \<noteq> - 1"
  shows "queue_inv (Queue capacity)" "queue_contents (Queue capacity) = []"
    "queue_bound (Queue capacity) = unat capacity"
proof -
  have n: "unat (capacity + 1) = Suc (unat capacity)"
    by (rule unat_Suc_lt [OF Suc_unat_lt [OF assms]])
  then show "queue_inv (Queue capacity)"
    by (simp add: queue_inv_def Queue_def word_less_nat_alt)
  show "queue_contents (Queue capacity) = []"
    by (simp add: queue_contents_def queue_size_def Queue_def)
  show "queue_bound (Queue capacity) = unat capacity"
    by (simp add: queue_bound_def Queue_def n)
qed


subsection \<open>Properties\<close>

text \<open>
  (C6) Every sequence of \<open>Enqueue\<close> and \<open>Dequeue\<close> calls on a freshly constructed queue runs without
  undefined behaviour and returns exactly what a list-based first-in first-out queue bounded by
  the constructor's capacity returns, for every capacity below \<open>UINT32_MAX\<close>.
\<close>

theorem ring_queue_refines_fifo:
  assumes "capacity \<noteq> - 1"
  shows "\<exists>q'. fifo_run Enqueue Dequeue (Queue capacity) ops
               = Some (fst (fifo_spec (unat capacity) (- 1) [] ops), q') \<and>
             queue_inv q' \<and> queue_contents q' = snd (fifo_spec (unat capacity) (- 1) [] ops)"
  using ring.run_refines [OF Queue_init(1) [OF assms]] Queue_init [OF assms] by auto

theorem ring_queue_refines_fifo_witness:
  "(2 :: u32) \<noteq> - 1 \<and>
   (\<exists>q'. fifo_run Enqueue Dequeue (Queue 2) [Enq 7, Enq 8, Enq 9, Deq, Enq 10, Deq, Deq, Deq]
      = Some ([Accepted True, Accepted True, Accepted False, Got 7, Accepted True, Got 8, Got 10, Got (- 1)], q') \<and>
      queue_inv q' \<and> queue_contents q' = [])"
  using ring_queue_refines_fifo [of 2 "[Enq 7, Enq 8, Enq 9, Deq, Enq 10, Deq, Deq, Deq]"] by simp


end
