(* ===== verification/Segment_Tree.thy ===== *)
theory Segment_Tree
  imports Prelude
begin

unbundle bit_operations_syntax

text \<open>
  The segment tree with lazy range addition of
  \<^verbatim>\<open>src/data_structure/segment_tree/segment_tree.h\<close> and \<^verbatim>\<open>.cc\<close>.  Indices and ranges are 64-bit
  (\<open>std::size_t\<close>), sums and pending additions are 32-bit (\<open>int\<close>, two's complement), and every
  vector access is checked.  The recursive members are partial functions, so an access out of
  range and a recursion that never ends are both \<^const>\<open>None\<close>.
\<close>

subsection \<open>Ranges\<close>

record range =
  left :: u64
  right :: u64

definition Range :: "u64 \<Rightarrow> u64 \<Rightarrow> range" where
  "Range l r = \<lparr> left = l, right = r \<rparr>"

definition range_length :: "range \<Rightarrow> u64" where
  "range_length r = right r - left r + 1"

definition range_middle :: "range \<Rightarrow> u64" where
  "range_middle r = drop_bit 1 (left r + right r)"

subsection \<open>The tree object\<close>

record segtree =
  st_sum :: "i32 list"
  st_lazy :: "i32 list"
  st_root :: u64
  st_root_range :: range

text \<open>The element updates \<open>sum_[i] = x\<close>, \<open>sum_[i] += x\<close>, \<open>lazy_add_[i] = x\<close> and \<open>lazy_add_[i] += x\<close>.\<close>

definition set_sum :: "u64 \<Rightarrow> i32 \<Rightarrow> segtree \<Rightarrow> segtree option" where
  "set_sum i x st = map_option (\<lambda>v. st\<lparr>st_sum := v\<rparr>) (vset (st_sum st) (unat i) x)"

definition set_lazy :: "u64 \<Rightarrow> i32 \<Rightarrow> segtree \<Rightarrow> segtree option" where
  "set_lazy i x st = map_option (\<lambda>v. st\<lparr>st_lazy := v\<rparr>) (vset (st_lazy st) (unat i) x)"

definition get_sum :: "u64 \<Rightarrow> segtree \<Rightarrow> i32 option" where
  "get_sum i st = vget (st_sum st) (unat i)"

definition get_lazy :: "u64 \<Rightarrow> segtree \<Rightarrow> i32 option" where
  "get_lazy i st = vget (st_lazy st) (unat i)"

definition add_lazy :: "u64 \<Rightarrow> i32 \<Rightarrow> segtree \<Rightarrow> segtree option" where
  "add_lazy i x st = do { y \<leftarrow> get_lazy i st; set_lazy i (y + x) st }"

text \<open>
  \<open>sum_[i] += x * r.length()\<close>: the \<open>int\<close> factor is sign-extended to \<open>std::size_t\<close>, product and sum
  are computed on 64 bits and the result is truncated to \<open>int\<close>.
\<close>

definition add_sum_times :: "u64 \<Rightarrow> i32 \<Rightarrow> u64 \<Rightarrow> segtree \<Rightarrow> segtree option" where
  "add_sum_times i x len st = do {
     y \<leftarrow> get_sum i st;
     set_sum i (ucast (scast y + scast x * len :: u64)) st
   }"

definition PushUp :: "u64 \<Rightarrow> segtree \<Rightarrow> segtree option" where
  "PushUp current st = do {
     a \<leftarrow> get_sum (push_bit 1 current) st;
     b \<leftarrow> get_sum (push_bit 1 current OR 1) st;
     set_sum current (a + b) st
   }"

definition PushDown :: "u64 \<Rightarrow> range \<Rightarrow> segtree \<Rightarrow> segtree option" where
  "PushDown current current_range st = do {
     d \<leftarrow> get_lazy current st;
     if d = 0 then Some st
     else
       let lc = push_bit 1 current;
           rc = push_bit 1 current OR 1;
           left_range = Range (left current_range) (range_middle current_range);
           right_range = Range (range_middle current_range + 1) (right current_range)
       in do {
         st1 \<leftarrow> add_lazy lc d st;
         d1 \<leftarrow> get_lazy current st1;
         st2 \<leftarrow> add_lazy rc d1 st1;
         d2 \<leftarrow> get_lazy current st2;
         st3 \<leftarrow> add_sum_times lc d2 (range_length left_range) st2;
         st4 \<leftarrow> add_sum_times rc d2 (range_length right_range) st3;
         set_lazy current 0 st4
       }
   }"

partial_function (option) Build :: "u64 \<Rightarrow> range \<Rightarrow> segtree \<Rightarrow> segtree option" where
  "Build current current_range st =
     (if range_length current_range = 1 then do {
        x \<leftarrow> get_lazy (left current_range) st;
        set_sum current x st
      }
      else
        let middle = range_middle current_range in do {
          st1 \<leftarrow> Build (push_bit 1 current) (Range (left current_range) middle) st;
          st2 \<leftarrow> Build (push_bit 1 current OR 1) (Range (middle + 1) (right current_range)) st1;
          PushUp current st2
        })"

partial_function (option) Query_rec ::
    "range \<Rightarrow> u64 \<Rightarrow> range \<Rightarrow> segtree \<Rightarrow> (i32 \<times> segtree) option" where
  "Query_rec query_range current current_range st =
     (if left current_range \<ge> left query_range \<and> right current_range \<le> right query_range then do {
        s \<leftarrow> get_sum current st;
        Some (s, st)
      }
      else
        let middle = range_middle current_range in do {
          st1 \<leftarrow> PushDown current current_range st;
          (res1, st2) \<leftarrow>
            (if left query_range \<le> middle
             then Query_rec query_range (push_bit 1 current) (Range (left current_range) middle) st1
             else Some (0, st1));
          (res2, st3) \<leftarrow>
            (if right query_range \<ge> middle + 1
             then Query_rec query_range (push_bit 1 current OR 1) (Range (middle + 1) (right current_range)) st2
             else Some (0, st2));
          Some (res1 + res2, st3)
        })"

partial_function (option) Update_point_rec ::
    "u64 \<Rightarrow> i32 \<Rightarrow> u64 \<Rightarrow> range \<Rightarrow> segtree \<Rightarrow> segtree option" where
  "Update_point_rec k increment current current_range st =
     (if range_length current_range = 1 then do {
        x \<leftarrow> get_sum current st;
        set_sum current (x + increment) st
      }
      else
        let middle = range_middle current_range in do {
          st1 \<leftarrow>
            (if k \<le> middle
             then Update_point_rec k increment (push_bit 1 current) (Range (left current_range) middle) st
             else Update_point_rec k increment (push_bit 1 current OR 1)
                    (Range (middle + 1) (right current_range)) st);
          PushUp current st1
        })"

partial_function (option) Update_range_rec ::
    "range \<Rightarrow> i32 \<Rightarrow> u64 \<Rightarrow> range \<Rightarrow> segtree \<Rightarrow> segtree option" where
  "Update_range_rec k_range increment current current_range st =
     (if left k_range \<le> left current_range \<and> right k_range \<ge> right current_range then do {
        st1 \<leftarrow> add_sum_times current increment (range_length current_range) st;
        add_lazy current increment st1
      }
      else
        let middle = range_middle current_range in do {
          st1 \<leftarrow> PushDown current current_range st;
          st2 \<leftarrow>
            (if left k_range \<le> middle
             then Update_range_rec k_range increment (push_bit 1 current) (Range (left current_range) middle) st1
             else Some st1);
          st3 \<leftarrow>
            (if right k_range \<ge> middle + 1
             then Update_range_rec k_range increment (push_bit 1 current OR 1)
                    (Range (middle + 1) (right current_range)) st2
             else Some st2);
          PushUp current st3
        })"

declare Build.simps [code] Query_rec.simps [code] Update_point_rec.simps [code] Update_range_rec.simps [code]

text \<open>The constructor and the three public members.\<close>

definition SegmentTree :: "u64 \<Rightarrow> segtree checked option" where
  "SegmentTree len =
     (if len \<le> 0 then Some (Fatal ''length > 0'')
      else if (len AND (len - 1)) \<noteq> 0 then Some (Fatal ''(length & (length - 1)) == 0'')
      else map_option Passed
        (Build 1 (Range 1 len)
           \<lparr> st_sum = replicate (unat (push_bit 1 len)) 0,
             st_lazy = replicate (unat (push_bit 1 len)) 0,
             st_root = 1, st_root_range = Range 1 len \<rparr>))"

definition Update_point :: "u64 \<Rightarrow> i32 \<Rightarrow> segtree \<Rightarrow> segtree option" where
  "Update_point k increment st = Update_point_rec k increment (st_root st) (st_root_range st) st"

definition Update_range :: "range \<Rightarrow> i32 \<Rightarrow> segtree \<Rightarrow> segtree option" where
  "Update_range k_range increment st = Update_range_rec k_range increment (st_root st) (st_root_range st) st"

definition Query :: "range \<Rightarrow> segtree \<Rightarrow> (i32 \<times> segtree) option" where
  "Query query_range st = Query_rec query_range (st_root st) (st_root_range st) st"


subsection \<open>Node indices and node ranges\<close>

definition node :: "nat \<Rightarrow> u64" where
  "node c = of_nat c"

definition node_range :: "nat \<Rightarrow> nat \<Rightarrow> range" where
  "node_range l h = Range (node l) (node (l + 2 ^ h - 1))"

lemma unat_node: "n < 2 ^ 64 \<Longrightarrow> unat (node n) = n"
  by (simp add: node_def unat_of_nat)

lemma left_child: "push_bit 1 (node c) = node (2 * c)"
  by (simp add: node_def push_bit_eq_mult)

lemma right_child: "node (2 * c) OR 1 = node (Suc (2 * c))"
  by (simp add: node_def or_one_eq)

lemma drop_bit_node: "n < 2 ^ 64 \<Longrightarrow> drop_bit 1 (node n) = node (n div 2)"
  by (subst word_unat_eq_iff) (simp add: unat_div_distrib unat_node drop_bit_eq_div)

lemma node_add_1: "node n + 1 = node (Suc n)"
  by (simp add: node_def)

lemma node_length: "range_length (node_range l h) = node (2 ^ h)"
proof -
  have "of_nat (l + 2 ^ h - 1) = (of_nat l + of_nat (2 ^ h) - 1 :: u64)"
    by (subst of_nat_diff) (simp_all add: Suc_leI)
  then show ?thesis by (simp add: node_range_def Range_def range_length_def node_def)
qed

lemma node_middle:
  assumes "l + 2 ^ Suc h \<le> 2 ^ 62"
  shows "range_middle (node_range l (Suc h)) = node (l + 2 ^ h - 1)"
proof -
  have p: "(1::nat) \<le> 2 ^ h" by simp
  have "range_middle (node_range l (Suc h)) = drop_bit 1 (node (l + (l + 2 ^ Suc h - 1)))"
    unfolding node_range_def Range_def range_middle_def node_def by (simp only: range.simps of_nat_add)
  also have "\<dots> = node ((l + (l + 2 ^ Suc h - 1)) div 2)"
    using assms by (intro drop_bit_node) simp
  also have "(l + (l + 2 ^ Suc h - 1)) div 2 = l + 2 ^ h - 1"
    using p by simp
  finally show ?thesis .
qed

lemma trunc_times:
  "(ucast (scast (y :: i32) + scast (x :: i32) * (of_nat n) :: u64) :: i32) = y + x * of_nat n"
proof -
  let ?k = "sint y + sint x * int n"
  have "(scast y + scast x * of_nat n :: u64) = word_of_int ?k"
    unfolding scast_eq by (simp only: of_int_add of_int_mult of_int_of_nat_eq)
  then have "(ucast (scast y + scast x * of_nat n :: u64) :: i32) = word_of_int (take_bit LENGTH(64) ?k)"
    by (simp only: ucast_eq uint_word_of_int_eq)
  also have "\<dots> = word_of_int ?k"
    by (simp only: word_of_int_eq_iff take_bit_take_bit) simp
  also have "\<dots> = y + x * of_nat n"
    by (simp only: of_int_add of_int_mult of_int_of_nat_eq of_int_sint scast_id)
  finally show ?thesis .
qed

subsection \<open>Nodes of a subtree\<close>

definition in_sub :: "nat \<Rightarrow> nat \<Rightarrow> bool" where
  "in_sub c m \<longleftrightarrow> (\<exists>j. m div 2 ^ j = c)"

lemma in_sub_self [simp]: "in_sub c c"
  unfolding in_sub_def by (rule exI [of _ 0]) simp

lemma not_in_sub_neq: "\<not> in_sub c m \<Longrightarrow> c \<noteq> m"
  by auto

lemma in_sub_child: "in_sub d m \<Longrightarrow> d div 2 = c \<Longrightarrow> in_sub c m"
  unfolding in_sub_def by (metis div_mult2_eq power_Suc2)

lemma in_sub_left: "in_sub (2 * c) m \<Longrightarrow> in_sub c m"
  and in_sub_right: "in_sub (Suc (2 * c)) m \<Longrightarrow> in_sub c m"
  by (auto elim!: in_sub_child)

lemma in_sub_ge: "in_sub c m \<Longrightarrow> c \<le> m"
  by (auto simp: in_sub_def)

lemma in_sub_disjoint:
  assumes "1 \<le> c" "in_sub (2 * c) m"
  shows "\<not> in_sub (Suc (2 * c)) m"
proof
  assume "in_sub (Suc (2 * c)) m"
  then obtain i where i: "m div 2 ^ i = Suc (2 * c)" by (auto simp: in_sub_def)
  from assms obtain j where j: "m div 2 ^ j = 2 * c" by (auto simp: in_sub_def)
  have step: "(m div 2 ^ p) div 2 ^ (q - p) = m div 2 ^ q" if "p \<le> q" for p q
    using that by (simp flip: div_mult2_eq power_add)
  have half: "x div 2 ^ d \<le> x div 2" if "0 < d" for x d :: nat
    using that by (cases d) (simp_all add: div_mult2_eq)
  consider "i = j" | "i < j" | "j < i" by linarith
  then show False
  proof cases
    case 1 with i j show ?thesis by simp
  next
    case 2 with step [of i j] half [of "j - i" "Suc (2 * c)"] i j assms show ?thesis by simp
  next
    case 3 with step [of j i] half [of "i - j" "2 * c"] i j assms show ?thesis by simp
  qed
qed

lemma in_sub_disjoint':
  "1 \<le> c \<Longrightarrow> in_sub (Suc (2 * c)) m \<Longrightarrow> \<not> in_sub (2 * c) m"
  using in_sub_disjoint by blast

lemma in_sub_proper:
  assumes "1 \<le> c"
  shows "in_sub (2 * c) m \<Longrightarrow> in_sub c m \<and> m \<noteq> c" "in_sub (Suc (2 * c)) m \<Longrightarrow> in_sub c m \<and> m \<noteq> c"
  using assms in_sub_left [of c m] in_sub_right [of c m] in_sub_ge [of "2 * c" m] in_sub_ge [of "Suc (2 * c)" m]
  by auto

lemma not_in_sub_child: "1 \<le> c \<Longrightarrow> \<not> in_sub (2 * c) c" "1 \<le> c \<Longrightarrow> \<not> in_sub (Suc (2 * c)) c"
  using in_sub_ge [of "2 * c" c] in_sub_ge [of "Suc (2 * c)" c] by auto

subsection \<open>What a subtree represents\<close>

fun represents :: "nat \<Rightarrow> segtree \<Rightarrow> nat \<Rightarrow> nat \<Rightarrow> (nat \<Rightarrow> i32) \<Rightarrow> bool" where
  "represents 0 st c l a \<longleftrightarrow> st_sum st ! c = a l"
| "represents (Suc h) st c l a \<longleftrightarrow>
     st_sum st ! c = (\<Sum>i = l..<l + 2 ^ Suc h. a i) \<and>
     represents h st (2 * c) l (\<lambda>i. a i - st_lazy st ! c) \<and>
     represents h st (Suc (2 * c)) (l + 2 ^ h) (\<lambda>i. a i - st_lazy st ! c)"

lemma represents_cong:
  "(\<And>i. l \<le> i \<Longrightarrow> i < l + 2 ^ h \<Longrightarrow> a i = b i) \<Longrightarrow> represents h st c l a \<Longrightarrow> represents h st c l b"
proof (induction h arbitrary: c l a b)
  case 0
  then show ?case by simp
next
  case (Suc h)
  from Suc.prems(2) have *: "st_sum st ! c = (\<Sum>i = l..<l + 2 ^ Suc h. a i)"
    "represents h st (2 * c) l (\<lambda>i. a i - st_lazy st ! c)"
    "represents h st (Suc (2 * c)) (l + 2 ^ h) (\<lambda>i. a i - st_lazy st ! c)" by simp_all
  have "(\<Sum>i = l..<l + 2 ^ Suc h. a i) = (\<Sum>i = l..<l + 2 ^ Suc h. b i)"
    using Suc.prems(1) by (intro sum.cong) auto
  moreover have "represents h st (2 * c) l (\<lambda>i. b i - st_lazy st ! c)"
    using Suc.prems(1) by (intro Suc.IH [OF _ *(2)]) simp
  moreover have "represents h st (Suc (2 * c)) (l + 2 ^ h) (\<lambda>i. b i - st_lazy st ! c)"
    using Suc.prems(1) by (intro Suc.IH [OF _ *(3)]) simp
  ultimately show ?case using *(1) by simp
qed

definition same_on :: "(nat \<Rightarrow> bool) \<Rightarrow> segtree \<Rightarrow> segtree \<Rightarrow> bool" where
  "same_on P st st' \<longleftrightarrow> (\<forall>m. P m \<longrightarrow> st_sum st' ! m = st_sum st ! m \<and> st_lazy st' ! m = st_lazy st ! m)"

lemma represents_frame:
  "same_on (in_sub c) st st' \<Longrightarrow> represents h st c l a \<Longrightarrow> represents h st' c l a"
proof (induction h arbitrary: c l a)
  case 0
  then show ?case by (simp add: same_on_def)
next
  case (Suc h)
  have "same_on (in_sub (2 * c)) st st'" "same_on (in_sub (Suc (2 * c))) st st'"
    using Suc.prems(1) by (auto simp: same_on_def dest: in_sub_left in_sub_right)
  with Suc show ?case by (simp add: same_on_def)
qed

lemma represents_sum: "represents h st c l a \<Longrightarrow> st_sum st ! c = (\<Sum>i = l..<l + 2 ^ h. a i)"
  by (cases h) auto


subsection \<open>The members on in-range nodes\<close>

definition tree_size :: "nat \<Rightarrow> segtree \<Rightarrow> bool" where
  "tree_size N st \<longleftrightarrow> length (st_sum st) = N \<and> length (st_lazy st) = N"

definition node_ok :: "nat \<Rightarrow> nat \<Rightarrow> nat \<Rightarrow> nat \<Rightarrow> bool" where
  "node_ok N h c l \<longleftrightarrow> 1 \<le> c \<and> (c + 1) * 2 ^ h \<le> N \<and> N \<le> 2 ^ 63 \<and> l + 2 ^ h \<le> 2 ^ 62"

lemma node_ok_index: "node_ok N h c l \<Longrightarrow> c < N"
  unfolding node_ok_def by (metis Suc_eq_plus1 Suc_le_lessD dual_order.trans le_add1 mult.right_neutral mult_le_mono2 one_le_numeral one_le_power)

lemma node_ok_children:
  assumes "node_ok N (Suc h) c l"
  shows "node_ok N h (2 * c) l" "node_ok N h (Suc (2 * c)) (l + 2 ^ h)"
  using assms by (auto simp: node_ok_def algebra_simps)

lemma node_range_children:
  shows "Range (left (node_range l (Suc h))) (node (l + 2 ^ h - 1)) = node_range l h"
    and "Range (node (l + 2 ^ h - 1) + 1) (right (node_range l (Suc h))) = node_range (l + 2 ^ h) h"
  by (simp_all add: node_range_def Range_def node_add_1 mult_2 add.assoc)

lemma index_word: "N \<le> 2 ^ 63 \<Longrightarrow> c < N \<Longrightarrow> unat (node c) = c"
  by (rule unat_node) simp

lemma accessors_nat:
  assumes "tree_size N st" "N \<le> 2 ^ 63" "c < N"
  shows "get_sum (node c) st = Some (st_sum st ! c)"
    and "get_lazy (node c) st = Some (st_lazy st ! c)"
    and "set_sum (node c) x st = Some (st\<lparr>st_sum := (st_sum st)[c := x]\<rparr>)"
    and "set_lazy (node c) x st = Some (st\<lparr>st_lazy := (st_lazy st)[c := x]\<rparr>)"
  using assms by (simp_all add: get_sum_def get_lazy_def set_sum_def set_lazy_def tree_size_def index_word)

lemma tree_size_upd [simp]:
  "tree_size N (st\<lparr>st_sum := (st_sum st)[i := x]\<rparr>) = tree_size N st"
  "tree_size N (st\<lparr>st_lazy := (st_lazy st)[i := x]\<rparr>) = tree_size N st"
  by (simp_all add: tree_size_def)

lemma add_lazy_nat:
  assumes "tree_size N st" "N \<le> 2 ^ 63" "c < N"
  shows "add_lazy (node c) x st = Some (st\<lparr>st_lazy := (st_lazy st)[c := st_lazy st ! c + x]\<rparr>)"
  using assms by (simp add: add_lazy_def accessors_nat [of N])

lemma add_sum_times_nat:
  assumes "tree_size N st" "N \<le> 2 ^ 63" "c < N"
  shows "add_sum_times (node c) x (node n) st
     = Some (st\<lparr>st_sum := (st_sum st)[c := st_sum st ! c + x * of_nat n]\<rparr>)"
  using assms by (simp add: add_sum_times_def accessors_nat [of N] trunc_times node_def [of n])

lemma PushUp_nat:
  assumes "tree_size N st" "node_ok N (Suc h) c l"
  shows "PushUp (node c) st
     = Some (st\<lparr>st_sum := (st_sum st)[c := st_sum st ! (2 * c) + st_sum st ! Suc (2 * c)]\<rparr>)"
proof -
  note ch = node_ok_children [OF assms(2)]
  have N: "N \<le> 2 ^ 63" using assms(2) by (simp add: node_ok_def)
  note acc = accessors_nat [OF assms(1) N]
  show ?thesis
    unfolding PushUp_def left_child right_child
    using acc(1) [OF node_ok_index [OF ch(1)]] acc(1) [OF node_ok_index [OF ch(2)]]
      acc(3) [OF node_ok_index [OF assms(2)]] by simp
qed

definition pushed :: "nat \<Rightarrow> nat \<Rightarrow> segtree \<Rightarrow> segtree" where
  "pushed h c st = (let d = st_lazy st ! c in
     st\<lparr>st_lazy := (st_lazy st)[2 * c := st_lazy st ! (2 * c) + d,
                       Suc (2 * c) := st_lazy st ! Suc (2 * c) + d, c := 0],
        st_sum := (st_sum st)[2 * c := st_sum st ! (2 * c) + d * 2 ^ h,
                       Suc (2 * c) := st_sum st ! Suc (2 * c) + d * 2 ^ h]\<rparr>)"

lemma pushed_clean: "st_lazy st ! c = 0 \<Longrightarrow> pushed h c st = st"
  by (simp add: pushed_def Let_def) (metis list_update_id segtree.surjective segtree.update_convs(2))

lemma PushDown_nat:
  assumes "tree_size N st" "node_ok N (Suc h) c l"
  shows "PushDown (node c) (node_range l (Suc h)) st = Some (pushed h c st)"
proof (cases "st_lazy st ! c = 0")
  case True
  have N: "N \<le> 2 ^ 63" using assms(2) by (simp add: node_ok_def)
  from True show ?thesis
    by (simp add: PushDown_def accessors_nat [OF assms(1) N node_ok_index [OF assms(2)]] pushed_clean)
next
  case False
  have N: "N \<le> 2 ^ 63" and c: "1 \<le> c" and l: "l + 2 ^ Suc h \<le> 2 ^ 62"
    using assms(2) by (simp_all add: node_ok_def)
  note idx = node_ok_index [OF assms(2)] node_ok_index [OF node_ok_children(1) [OF assms(2)]]
    node_ok_index [OF node_ok_children(2) [OF assms(2)]]
  note nat_ops = accessors_nat [where N = N] add_lazy_nat [where N = N] add_sum_times_nat [where N = N]
  show ?thesis
    unfolding PushDown_def left_child right_child node_middle [OF l] node_range_children Let_def
    using assms(1) N idx c False
    by (simp add: nat_ops pushed_def node_length tree_size_def Let_def)
qed


subsection \<open>Effect on the represented values\<close>

lemma sum_shift: "(\<Sum>i = l..<l + 2 ^ h. b i + d) = (\<Sum>i = l..<l + 2 ^ h. b i) + d * 2 ^ h"
  for d :: i32 and l h :: nat
  by (simp add: sum.distrib mult.commute)

lemma represents_shift:
  assumes rep: "represents h st x l b" and x: "1 \<le> x"
    and sum: "st_sum st' ! x = st_sum st ! x + d * 2 ^ h"
    and lazy: "st_lazy st' ! x = st_lazy st ! x + d"
    and same: "same_on (\<lambda>m. in_sub x m \<and> m \<noteq> x) st st'"
  shows "represents h st' x l (\<lambda>i. b i + d)"
proof (cases h)
  case 0
  with rep sum show ?thesis by simp
next
  case (Suc h')
  have frame: "same_on (in_sub (2 * x)) st st'" "same_on (in_sub (Suc (2 * x))) st st'"
    using same in_sub_proper [OF x] by (auto simp: same_on_def)
  with rep Suc have "represents h' st' (2 * x) l (\<lambda>i. b i - st_lazy st ! x)"
    "represents h' st' (Suc (2 * x)) (l + 2 ^ h') (\<lambda>i. b i - st_lazy st ! x)"
    by (auto intro: represents_frame)
  moreover have "st_sum st' ! x = (\<Sum>i = l..<l + 2 ^ h. b i + d)"
    using sum represents_sum [OF rep] by (simp only: sum_shift)
  ultimately show ?thesis using Suc lazy by (simp add: algebra_simps)
qed

lemma pushed_effect:
  assumes size: "tree_size N st" and ok: "node_ok N (Suc h) c l"
    and rep: "represents (Suc h) st c l a"
  shows "represents h (pushed h c st) (2 * c) l a"
    and "represents h (pushed h c st) (Suc (2 * c)) (l + 2 ^ h) a"
    and "st_lazy (pushed h c st) ! c = 0" and "st_sum (pushed h c st) ! c = st_sum st ! c"
    and "same_on (\<lambda>m. \<not> in_sub c m) st (pushed h c st)" and "tree_size N (pushed h c st)"
proof -
  have c: "1 \<le> c" using ok by (simp add: node_ok_def)
  note idx = node_ok_index [OF ok] node_ok_index [OF node_ok_children(1) [OF ok]]
    node_ok_index [OF node_ok_children(2) [OF ok]]
  let ?d = "st_lazy st ! c"
  have "represents h (pushed h c st) (2 * c) l (\<lambda>i. (a i - ?d) + ?d)"
    using rep size idx c in_sub_disjoint [OF c] in_sub_disjoint' [OF c in_sub_self]
    by (intro represents_shift [where st = st])
       (auto simp: pushed_def Let_def tree_size_def same_on_def nth_list_update dest: in_sub_ge)
  then show "represents h (pushed h c st) (2 * c) l a" by simp
  have "represents h (pushed h c st) (Suc (2 * c)) (l + 2 ^ h) (\<lambda>i. (a i - ?d) + ?d)"
    using rep size idx c in_sub_disjoint [OF c] in_sub_disjoint' [OF c in_sub_self]
    by (intro represents_shift [where st = st])
       (auto simp: pushed_def Let_def tree_size_def same_on_def nth_list_update dest: in_sub_ge)
  then show "represents h (pushed h c st) (Suc (2 * c)) (l + 2 ^ h) a" by simp
  show "st_lazy (pushed h c st) ! c = 0" "st_sum (pushed h c st) ! c = st_sum st ! c"
    using size idx c by (auto simp: pushed_def Let_def tree_size_def nth_list_update)
  show "same_on (\<lambda>m. \<not> in_sub c m) st (pushed h c st)"
    unfolding same_on_def
  proof (intro allI impI)
    fix m assume "\<not> in_sub c m"
    then have "m \<noteq> c" "m \<noteq> 2 * c" "m \<noteq> Suc (2 * c)"
      using in_sub_left [of c "2 * c"] in_sub_right [of c "Suc (2 * c)"] by auto
    then show "st_sum (pushed h c st) ! m = st_sum st ! m \<and> st_lazy (pushed h c st) ! m = st_lazy st ! m"
      by (simp add: pushed_def Let_def)
  qed
  show "tree_size N (pushed h c st)"
    using size by (simp add: pushed_def Let_def tree_size_def)
qed

text \<open>What an operation on the subtree at \<open>c\<close> leaves alone.\<close>

definition only_below :: "nat \<Rightarrow> nat \<Rightarrow> segtree \<Rightarrow> segtree \<Rightarrow> bool" where
  "only_below N c st st' \<longleftrightarrow> tree_size N st' \<and> same_on (\<lambda>m. \<not> in_sub c m) st st' \<and>
     st_root st' = st_root st \<and> st_root_range st' = st_root_range st"

lemma only_below_refl [simp]: "only_below N c st st \<longleftrightarrow> tree_size N st"
  by (simp add: only_below_def same_on_def)

lemma only_below_trans:
  "only_below N c st st' \<Longrightarrow> only_below N c st' st'' \<Longrightarrow> only_below N c st st''"
  by (auto simp: only_below_def same_on_def)

lemma only_below_child:
  "only_below N (2 * c) st st' \<Longrightarrow> only_below N c st st'"
  "only_below N (Suc (2 * c)) st st' \<Longrightarrow> only_below N c st st'"
  by (auto simp: only_below_def same_on_def dest: in_sub_left in_sub_right)

lemma only_below_sibling:
  assumes "1 \<le> c"
  shows "only_below N (2 * c) st st' \<Longrightarrow> represents h st (Suc (2 * c)) l a \<Longrightarrow> represents h st' (Suc (2 * c)) l a"
    and "only_below N (Suc (2 * c)) st st' \<Longrightarrow> represents h st (2 * c) l a \<Longrightarrow> represents h st' (2 * c) l a"
  using in_sub_disjoint' [OF assms] in_sub_disjoint [OF assms]
  by (auto intro!: represents_frame [where st = st and st' = st'] simp: only_below_def same_on_def)

lemma only_below_parent:
  assumes "1 \<le> c"
  shows "only_below N (2 * c) st st' \<Longrightarrow> st_lazy st' ! c = st_lazy st ! c \<and> st_sum st' ! c = st_sum st ! c"
    and "only_below N (Suc (2 * c)) st st' \<Longrightarrow> st_lazy st' ! c = st_lazy st ! c \<and> st_sum st' ! c = st_sum st ! c"
  using not_in_sub_child [OF assms] by (auto simp: only_below_def same_on_def)

lemma pushed_only_below:
  assumes "tree_size N st" "node_ok N (Suc h) c l" "represents (Suc h) st c l a"
  shows "only_below N c st (pushed h c st)"
  using pushed_effect(5,6) [OF assms] by (simp add: only_below_def pushed_def Let_def)


definition clean :: "segtree \<Rightarrow> bool" where
  "clean st \<longleftrightarrow> (\<forall>i < length (st_lazy st). st_lazy st ! i = 0)"

lemma node_le: "m < 2 ^ 64 \<Longrightarrow> w \<le> node m \<longleftrightarrow> unat w \<le> m" "m < 2 ^ 64 \<Longrightarrow> node m \<le> w \<longleftrightarrow> m \<le> unat w"
  by (simp_all add: word_le_nat_alt unat_node)

lemma node_covered:
  assumes "l + 2 ^ h \<le> 2 ^ 62"
  shows "left (node_range l h) \<ge> left q \<and> right (node_range l h) \<le> right q \<longleftrightarrow>
         unat (left q) \<le> l \<and> l + 2 ^ h \<le> Suc (unat (right q))"
proof -
  have "(1::nat) \<le> 2 ^ h" by simp
  then show ?thesis using assms by (auto simp: node_range_def Range_def node_le)
qed

lemma node_branch:
  assumes "l + 2 ^ Suc h \<le> 2 ^ 62"
  shows "w \<le> node (l + 2 ^ h - 1) \<longleftrightarrow> unat w < l + 2 ^ h"
    and "w \<ge> node (l + 2 ^ h - 1) + 1 \<longleftrightarrow> l + 2 ^ h \<le> unat w"
proof -
  obtain k where k: "(2::nat) ^ h = Suc k" by (metis not0_implies_Suc power_not_zero zero_neq_numeral)
  show "w \<le> node (l + 2 ^ h - 1) \<longleftrightarrow> unat w < l + 2 ^ h"
    "w \<ge> node (l + 2 ^ h - 1) + 1 \<longleftrightarrow> l + 2 ^ h \<le> unat w"
    using assms by (auto simp: node_le node_add_1 k)
qed

lemma Query_rec_node:
  assumes l: "l + 2 ^ Suc h \<le> 2 ^ 62"
  shows "Query_rec q (node c) (node_range l (Suc h)) st =
    (if unat (left q) \<le> l \<and> l + 2 ^ Suc h \<le> Suc (unat (right q))
     then do { s \<leftarrow> get_sum (node c) st; Some (s, st) }
     else do {
       st1 \<leftarrow> PushDown (node c) (node_range l (Suc h)) st;
       (res1, st2) \<leftarrow> (if unat (left q) < l + 2 ^ h
          then Query_rec q (node (2 * c)) (node_range l h) st1 else Some (0, st1));
       (res2, st3) \<leftarrow> (if l + 2 ^ h \<le> unat (right q)
          then Query_rec q (node (Suc (2 * c))) (node_range (l + 2 ^ h) h) st2 else Some (0, st2));
       Some (res1 + res2, st3)
     })"
  by (subst Query_rec.simps)
     (simp only: Let_def node_middle [OF l] left_child right_child node_range_children
        node_branch [OF l] node_covered [OF l])

lemma sum_split_ranges:
  fixes l m r :: nat and a :: "nat \<Rightarrow> i32"
  assumes "l \<le> m" "m \<le> r"
  shows "(\<Sum>i = max l lo..<min m hi. a i) + (\<Sum>i = max m lo..<min r hi. a i) = (\<Sum>i = max l lo..<min r hi. a i)"
proof -
  consider "hi \<le> m" | "m \<le> lo" | "lo < m" "m < hi" by linarith
  then show ?thesis
  proof cases
    case 3
    then have "max m lo = m" "min m hi = m" "max l lo \<le> m" "m \<le> min r hi" using assms by auto
    then show ?thesis by (simp add: sum.atLeastLessThan_concat)
  qed (use assms in \<open>auto simp: max_def min_def\<close>)
qed

lemma represents_join:
  assumes "represents h st (2 * c) l a" "represents h st (Suc (2 * c)) (l + 2 ^ h) a"
    and "st_lazy st ! c = 0" "st_sum st ! c = (\<Sum>i = l..<l + 2 ^ Suc h. a i)"
  shows "represents (Suc h) st c l a"
  using assms by simp

lemma Query_rec_ok:
  assumes "tree_size N st" "node_ok N h c l" "represents h st c l a"
    and "unat (left q) \<le> unat (right q)" "unat (left q) < l + 2 ^ h" "l \<le> unat (right q)"
  shows "\<exists>st'. Query_rec q (node c) (node_range l h) st
            = Some (\<Sum>i = max l (unat (left q))..<min (l + 2 ^ h) (Suc (unat (right q))). a i, st') \<and>
          represents h st' c l a \<and> only_below N c st st' \<and> (clean st \<longrightarrow> st' = st)"
  using assms
proof (induction h arbitrary: c l st)
  case 0
  then have N: "N \<le> 2 ^ 63" by (simp add: node_ok_def)
  have "unat (left q) \<le> l \<and> l + 2 ^ 0 \<le> Suc (unat (right q))" using "0.prems" by simp
  moreover have "{max l (unat (left q))..<min (l + 2 ^ 0) (Suc (unat (right q)))} = {l}"
    using "0.prems" by auto
  ultimately show ?case
    using "0.prems" node_covered [of l 0 q] accessors_nat(1) [OF "0.prems"(1) N node_ok_index [OF "0.prems"(2)]]
    by (subst Query_rec.simps) (simp add: node_ok_def)
next
  case (Suc h)
  note ok = Suc.prems(2)
  have N: "N \<le> 2 ^ 63" and c: "1 \<le> c" and l: "l + 2 ^ Suc h \<le> 2 ^ 62"
    using ok by (simp_all add: node_ok_def)
  let ?lo = "unat (left q)" and ?hi = "unat (right q)"
  show ?case
  proof (cases "?lo \<le> l \<and> l + 2 ^ Suc h \<le> Suc ?hi")
    case True
    then have "max l ?lo = l" "min (l + 2 ^ Suc h) (Suc ?hi) = l + 2 ^ Suc h" by auto
    then show ?thesis
      using True Suc.prems represents_sum [OF Suc.prems(3)] node_covered [OF l, of q]
        accessors_nat(1) [OF Suc.prems(1) N node_ok_index [OF ok]]
      by (subst Query_rec.simps) simp
  next
    case False
    let ?st1 = "pushed h c st" and ?m = "l + 2 ^ h"
    note pe = pushed_effect [OF Suc.prems(1-3)]
    have cl1: "clean st \<longrightarrow> ?st1 = st"
      using pushed_clean [of st c h] Suc.prems(1) node_ok_index [OF ok] by (auto simp: clean_def tree_size_def)
    obtain st2 where st2:
      "(if ?lo < ?m then Query_rec q (node (2 * c)) (node_range l h) ?st1 else Some (0, ?st1))
         = Some (\<Sum>i = max l ?lo..<min ?m (Suc ?hi). a i, st2)"
      "represents h st2 (2 * c) l a" "only_below N (2 * c) ?st1 st2" "clean st \<longrightarrow> st2 = st"
    proof (cases "?lo < ?m")
      case True
      with Suc.IH [OF pe(6) node_ok_children(1) [OF ok] pe(1)] Suc.prems that cl1 show ?thesis by auto
    next
      case False
      then have "{max l ?lo..<min ?m (Suc ?hi)} = {}" by auto
      with that [of ?st1] False pe(1,6) cl1 show ?thesis by simp
    qed
    have rep2: "represents h st2 (Suc (2 * c)) ?m a"
      using only_below_sibling(1) [OF c st2(3) pe(2)] .
    have size2: "tree_size N st2" using st2(3) by (simp add: only_below_def)
    obtain st3 where st3:
      "(if ?m \<le> ?hi then Query_rec q (node (Suc (2 * c))) (node_range ?m h) st2 else Some (0, st2))
         = Some (\<Sum>i = max ?m ?lo..<min (l + 2 ^ Suc h) (Suc ?hi). a i, st3)"
      "represents h st3 (Suc (2 * c)) ?m a" "only_below N (Suc (2 * c)) st2 st3" "clean st \<longrightarrow> st3 = st"
    proof (cases "?m \<le> ?hi")
      case True
      with Suc.IH [OF size2 node_ok_children(2) [OF ok] rep2] Suc.prems that st2(4) show ?thesis
        by (auto simp: mult_2 add.assoc)
    next
      case False
      then have "{max ?m ?lo..<min (l + 2 ^ Suc h) (Suc ?hi)} = {}" by auto
      with that [of st2] False rep2 size2 st2(4) show ?thesis by simp
    qed
    have val: "(\<Sum>i = max l ?lo..<min ?m (Suc ?hi). a i) + (\<Sum>i = max ?m ?lo..<min (l + 2 ^ Suc h) (Suc ?hi). a i)
       = (\<Sum>i = max l ?lo..<min (l + 2 ^ Suc h) (Suc ?hi). a i)"
      by (rule sum_split_ranges) simp_all
    have "st_lazy st3 ! c = 0" "st_sum st3 ! c = (\<Sum>i = l..<l + 2 ^ Suc h. a i)"
      using only_below_parent(1) [OF c st2(3)] only_below_parent(2) [OF c st3(3)] pe(3,4)
        represents_sum [OF Suc.prems(3)] by simp_all
    then have "represents (Suc h) st3 c l a"
      using only_below_sibling(2) [OF c st3(3) st2(2)] st3(2) by (intro represents_join)
    moreover have "only_below N c st st3"
      using only_below_trans [OF pushed_only_below [OF Suc.prems(1-3)]
          only_below_trans [OF only_below_child(1) [OF st2(3)] only_below_child(2) [OF st3(3)]]] .
    moreover have "Query_rec q (node c) (node_range l (Suc h)) st
        = Some (\<Sum>i = max l ?lo..<min (l + 2 ^ Suc h) (Suc ?hi). a i, st3)"
      unfolding Query_rec_node [OF l] PushDown_nat [OF Suc.prems(1) ok] if_not_P [OF False]
      using st2(1) st3(1) val by (simp del: power_Suc)
    ultimately show ?thesis using st3(4) by auto
  qed
qed


lemma Update_range_rec_node:
  assumes l: "l + 2 ^ Suc h \<le> 2 ^ 62"
  shows "Update_range_rec q x (node c) (node_range l (Suc h)) st =
    (if unat (left q) \<le> l \<and> l + 2 ^ Suc h \<le> Suc (unat (right q))
     then do { st1 \<leftarrow> add_sum_times (node c) x (node (2 ^ Suc h)) st; add_lazy (node c) x st1 }
     else do {
       st1 \<leftarrow> PushDown (node c) (node_range l (Suc h)) st;
       st2 \<leftarrow> (if unat (left q) < l + 2 ^ h
          then Update_range_rec q x (node (2 * c)) (node_range l h) st1 else Some st1);
       st3 \<leftarrow> (if l + 2 ^ h \<le> unat (right q)
          then Update_range_rec q x (node (Suc (2 * c))) (node_range (l + 2 ^ h) h) st2 else Some st2);
       PushUp (node c) st3
     })"
  by (subst Update_range_rec.simps)
     (simp only: Let_def node_middle [OF l] left_child right_child node_range_children node_length
        node_branch [OF l] node_covered [OF l])

definition range_add :: "range \<Rightarrow> i32 \<Rightarrow> (nat \<Rightarrow> i32) \<Rightarrow> nat \<Rightarrow> i32" where
  "range_add q x a i = (if unat (left q) \<le> i \<and> i \<le> unat (right q) then a i + x else a i)"

lemma covered_update:
  assumes size: "tree_size N st" and ok: "node_ok N h c l" and rep: "represents h st c l a"
    and cov: "unat (left q) \<le> l" "l + 2 ^ h \<le> Suc (unat (right q))"
  shows "\<exists>st'. do { st1 \<leftarrow> add_sum_times (node c) x (node (2 ^ h)) st; add_lazy (node c) x st1 } = Some st' \<and>
           represents h st' c l (range_add q x a) \<and> only_below N c st st'"
proof -
  have N: "N \<le> 2 ^ 63" and c: "1 \<le> c" using ok by (simp_all add: node_ok_def)
  note idx = node_ok_index [OF ok]
  let ?st1 = "st\<lparr>st_sum := (st_sum st)[c := st_sum st ! c + x * of_nat (2 ^ h)]\<rparr>"
  let ?st' = "?st1\<lparr>st_lazy := (st_lazy st)[c := st_lazy st ! c + x]\<rparr>"
  have "do { st1 \<leftarrow> add_sum_times (node c) x (node (2 ^ h)) st; add_lazy (node c) x st1 } = Some ?st'"
    using add_sum_times_nat [OF size N idx, of x "2 ^ h"] add_lazy_nat [of N ?st1, OF _ N idx, of x] size by simp
  moreover have "represents h ?st' c l (\<lambda>i. a i + x)"
    using size idx by (intro represents_shift [OF rep c]) (auto simp: tree_size_def same_on_def)
  then have "represents h ?st' c l (range_add q x a)"
    using cov by (elim represents_cong [rotated]) (auto simp: range_add_def)
  moreover have "only_below N c st ?st'"
    using size by (auto simp: only_below_def tree_size_def same_on_def dest: not_in_sub_neq)
  ultimately show ?thesis by blast
qed

lemma range_add_outside:
  "represents h st c l a \<Longrightarrow> l + 2 ^ h \<le> unat (left q) \<or> unat (right q) < l \<Longrightarrow>
   represents h st c l (range_add q x a)"
  by (erule represents_cong [rotated]) (auto simp: range_add_def)

lemma PushUp_join:
  assumes size: "tree_size N st" and ok: "node_ok N (Suc h) c l"
    and rep: "represents h st (2 * c) l a" "represents h st (Suc (2 * c)) (l + 2 ^ h) a"
    and lazy: "st_lazy st ! c = 0"
  shows "\<exists>st'. PushUp (node c) st = Some st' \<and> represents (Suc h) st' c l a \<and> only_below N c st st'"
proof -
  have c: "1 \<le> c" using ok by (simp add: node_ok_def)
  let ?s = "st_sum st ! (2 * c) + st_sum st ! Suc (2 * c)"
  let ?st' = "st\<lparr>st_sum := (st_sum st)[c := ?s]\<rparr>"
  have below: "only_below N c st ?st'"
    using size by (auto simp: only_below_def tree_size_def same_on_def dest: not_in_sub_neq)
  have frame: "same_on (in_sub (2 * c)) st ?st'" "same_on (in_sub (Suc (2 * c))) st ?st'"
    by (auto simp: same_on_def dest!: in_sub_proper [OF c])
  have "?s = (\<Sum>i = l..<l + 2 ^ h. a i) + (\<Sum>i = l + 2 ^ h..<l + 2 ^ h + 2 ^ h. a i)"
    by (simp add: represents_sum [OF rep(1)] represents_sum [OF rep(2)])
  also have "\<dots> = (\<Sum>i = l..<l + 2 ^ Suc h. a i)"
    by (simp add: sum.atLeastLessThan_concat mult_2 add.assoc)
  finally have "st_sum ?st' ! c = (\<Sum>i = l..<l + 2 ^ Suc h. a i)"
    using size node_ok_index [OF ok] by (simp add: tree_size_def)
  then have "represents (Suc h) ?st' c l a"
    using represents_frame [OF frame(1) rep(1)] represents_frame [OF frame(2) rep(2)] lazy
    by (intro represents_join) simp_all
  with below PushUp_nat [OF size ok] show ?thesis by blast
qed

lemma Update_range_rec_ok:
  assumes "tree_size N st" "node_ok N h c l" "represents h st c l a"
    and "unat (left q) \<le> unat (right q)" "unat (left q) < l + 2 ^ h" "l \<le> unat (right q)"
  shows "\<exists>st'. Update_range_rec q x (node c) (node_range l h) st = Some st' \<and>
          represents h st' c l (range_add q x a) \<and> only_below N c st st'"
  using assms
proof (induction h arbitrary: c l st)
  case 0
  then have "l + 2 ^ 0 \<le> 2 ^ 62" by (simp add: node_ok_def)
  from node_covered [OF this, of q] "0.prems"
  have "Update_range_rec q x (node c) (node_range l 0) st =
      do { st1 \<leftarrow> add_sum_times (node c) x (node (2 ^ 0)) st; add_lazy (node c) x st1 }"
    by (subst Update_range_rec.simps) (simp add: node_length)
  with covered_update [OF "0.prems"(1-3), of q x] "0.prems" show ?case by simp
next
  case (Suc h)
  note ok = Suc.prems(2)
  have c: "1 \<le> c" and l: "l + 2 ^ Suc h \<le> 2 ^ 62" using ok by (simp_all add: node_ok_def)
  let ?lo = "unat (left q)" and ?hi = "unat (right q)" and ?b = "range_add q x a"
  show ?case
  proof (cases "?lo \<le> l \<and> l + 2 ^ Suc h \<le> Suc ?hi")
    case True
    with covered_update [OF Suc.prems(1-3), of q x] show ?thesis
      unfolding Update_range_rec_node [OF l] if_P [OF True] by simp
  next
    case False
    let ?st1 = "pushed h c st" and ?m = "l + 2 ^ h"
    note pe = pushed_effect [OF Suc.prems(1-3)]
    obtain st2 where st2:
      "(if ?lo < ?m then Update_range_rec q x (node (2 * c)) (node_range l h) ?st1 else Some ?st1) = Some st2"
      "represents h st2 (2 * c) l ?b" "only_below N (2 * c) ?st1 st2"
    proof (cases "?lo < ?m")
      case True
      with Suc.IH [OF pe(6) node_ok_children(1) [OF ok] pe(1)] Suc.prems that show ?thesis by auto
    next
      case False
      with that [of ?st1] range_add_outside [OF pe(1), of q x] pe(6) show ?thesis by simp
    qed
    have rep2: "represents h st2 (Suc (2 * c)) ?m a"
      using only_below_sibling(1) [OF c st2(3) pe(2)] .
    have size2: "tree_size N st2" using st2(3) by (simp add: only_below_def)
    obtain st3 where st3:
      "(if ?m \<le> ?hi then Update_range_rec q x (node (Suc (2 * c))) (node_range ?m h) st2 else Some st2) = Some st3"
      "represents h st3 (Suc (2 * c)) ?m ?b" "only_below N (Suc (2 * c)) st2 st3"
    proof (cases "?m \<le> ?hi")
      case True
      with Suc.IH [OF size2 node_ok_children(2) [OF ok] rep2] Suc.prems that show ?thesis
        by (auto simp: mult_2 add.assoc)
    next
      case False
      with that [of st2] range_add_outside [OF rep2, of q x] size2 show ?thesis by simp
    qed
    have lazy3: "st_lazy st3 ! c = 0"
      using only_below_parent(1) [OF c st2(3)] only_below_parent(2) [OF c st3(3)] pe(3) by simp
    have size3: "tree_size N st3" using st3(3) by (simp add: only_below_def)
    obtain st4 where st4: "PushUp (node c) st3 = Some st4" "represents (Suc h) st4 c l ?b" "only_below N c st3 st4"
      using PushUp_join [OF size3 ok only_below_sibling(2) [OF c st3(3) st2(2)] st3(2) lazy3] by blast
    have "only_below N c st st4"
      using only_below_trans [OF pushed_only_below [OF Suc.prems(1-3)]
          only_below_trans [OF only_below_child(1) [OF st2(3)]
          only_below_trans [OF only_below_child(2) [OF st3(3)] st4(3)]]] .
    moreover have "Update_range_rec q x (node c) (node_range l (Suc h)) st = Some st4"
      unfolding Update_range_rec_node [OF l] PushDown_nat [OF Suc.prems(1) ok] if_not_P [OF False]
      using st2(1) st3(1) st4(1) by simp
    ultimately show ?thesis using st4(2) by blast
  qed
qed


subsection \<open>Point update and construction\<close>

fun path_clean :: "nat \<Rightarrow> segtree \<Rightarrow> nat \<Rightarrow> nat \<Rightarrow> nat \<Rightarrow> bool" where
  "path_clean 0 st c l k \<longleftrightarrow> True"
| "path_clean (Suc h) st c l k \<longleftrightarrow> st_lazy st ! c = 0 \<and>
     (if k < l + 2 ^ h then path_clean h st (2 * c) l k else path_clean h st (Suc (2 * c)) (l + 2 ^ h) k)"

lemma clean_path_clean: "clean st \<Longrightarrow> tree_size N st \<Longrightarrow> node_ok N h c l \<Longrightarrow> path_clean h st c l k"
proof (induction h arbitrary: c l)
  case (Suc h)
  then show ?case
    using node_ok_index [OF Suc.prems(3)] node_ok_children [OF Suc.prems(3)]
    by (auto simp: clean_def tree_size_def)
qed simp

lemma node_length_1:
  assumes "l + 2 ^ h \<le> 2 ^ 62"
  shows "range_length (node_range l h) = 1 \<longleftrightarrow> h = 0"
proof -
  have "unat (node (2 ^ h)) = 2 ^ h" using assms by (intro unat_node) simp
  then show ?thesis by (auto simp: node_length word_unat_eq_iff)
qed

lemma Update_point_rec_node:
  assumes l: "l + 2 ^ Suc h \<le> 2 ^ 62"
  shows "Update_point_rec k x (node c) (node_range l (Suc h)) st = do {
       st1 \<leftarrow> (if unat k < l + 2 ^ h
          then Update_point_rec k x (node (2 * c)) (node_range l h) st
          else Update_point_rec k x (node (Suc (2 * c))) (node_range (l + 2 ^ h) h) st);
       PushUp (node c) st1
     }"
proof -
  have "\<not> range_length (node_range l (Suc h)) = 1" using node_length_1 [OF l] by simp
  then show ?thesis
    by (subst Update_point_rec.simps)
     (simp only: if_False Let_def node_middle [OF l] left_child right_child node_range_children node_branch [OF l])
qed

definition point_add :: "nat \<Rightarrow> i32 \<Rightarrow> (nat \<Rightarrow> i32) \<Rightarrow> nat \<Rightarrow> i32" where
  "point_add k x a = a(k := a k + x)"

lemma point_add_outside:
  "represents h st c l a \<Longrightarrow> k < l \<or> l + 2 ^ h \<le> k \<Longrightarrow> represents h st c l (point_add k x a)"
  by (erule represents_cong [rotated]) (auto simp: point_add_def)

lemma Update_point_rec_ok:
  assumes "tree_size N st" "node_ok N h c l" "represents h st c l a" "path_clean h st c l (unat k)"
    and "l \<le> unat k" "unat k < l + 2 ^ h"
  shows "\<exists>st'. Update_point_rec k x (node c) (node_range l h) st = Some st' \<and>
          represents h st' c l (point_add (unat k) x a) \<and> only_below N c st st' \<and> st_lazy st' = st_lazy st"
  using assms
proof (induction h arbitrary: c l st)
  case 0
  then have N: "N \<le> 2 ^ 63" and l: "l + 2 ^ 0 \<le> 2 ^ 62" by (simp_all add: node_ok_def)
  note idx = node_ok_index [OF "0.prems"(2)]
  let ?st' = "st\<lparr>st_sum := (st_sum st)[c := st_sum st ! c + x]\<rparr>"
  have "Update_point_rec k x (node c) (node_range l 0) st = Some ?st'"
    using node_length_1 [OF l] accessors_nat [OF "0.prems"(1) N idx]
    by (subst Update_point_rec.simps) simp
  moreover have "only_below N c st ?st'"
    using "0.prems"(1) by (auto simp: only_below_def tree_size_def same_on_def dest: not_in_sub_neq)
  moreover have "unat k = l" using "0.prems" by simp
  ultimately show ?case
    using "0.prems" idx by (simp add: point_add_def tree_size_def)
next
  case (Suc h)
  note ok = Suc.prems(2)
  have c: "1 \<le> c" and l: "l + 2 ^ Suc h \<le> 2 ^ 62" using ok by (simp_all add: node_ok_def)
  let ?m = "l + 2 ^ h" and ?b = "point_add (unat k) x a"
  have lazy: "st_lazy st ! c = 0" using Suc.prems(4) by simp
  have rep: "represents h st (2 * c) l a" "represents h st (Suc (2 * c)) ?m a"
    using Suc.prems(3) lazy by simp_all
  obtain st1 where st1:
    "(if unat k < ?m then Update_point_rec k x (node (2 * c)) (node_range l h) st
      else Update_point_rec k x (node (Suc (2 * c))) (node_range ?m h) st) = Some st1"
    "represents h st1 (2 * c) l ?b" "represents h st1 (Suc (2 * c)) ?m ?b"
    "only_below N c st st1" "st_lazy st1 = st_lazy st"
  proof (cases "unat k < ?m")
    case True
    with Suc.prems Suc.IH [OF Suc.prems(1) node_ok_children(1) [OF ok] rep(1)]
    obtain st1 where *: "Update_point_rec k x (node (2 * c)) (node_range l h) st = Some st1"
      "represents h st1 (2 * c) l ?b" "only_below N (2 * c) st st1" "st_lazy st1 = st_lazy st" by auto
    have "represents h st1 (Suc (2 * c)) ?m ?b"
      using point_add_outside [OF only_below_sibling(1) [OF c *(3) rep(2)], of "unat k" x] True by simp
    with that [of st1] * True only_below_child(1) [OF *(3)] show ?thesis by simp
  next
    case False
    with Suc.prems Suc.IH [OF Suc.prems(1) node_ok_children(2) [OF ok] rep(2)]
    obtain st1 where *: "Update_point_rec k x (node (Suc (2 * c))) (node_range ?m h) st = Some st1"
      "represents h st1 (Suc (2 * c)) ?m ?b" "only_below N (Suc (2 * c)) st st1" "st_lazy st1 = st_lazy st"
      by (auto simp: mult_2 add.assoc)
    have "represents h st1 (2 * c) l ?b"
      using point_add_outside [OF only_below_sibling(2) [OF c *(3) rep(1)], of "unat k" x] False by simp
    with that [of st1] * False only_below_child(2) [OF *(3)] show ?thesis by simp
  qed
  have size1: "tree_size N st1" using st1(4) by (simp add: only_below_def)
  obtain st2 where st2: "PushUp (node c) st1 = Some st2" "represents (Suc h) st2 c l ?b" "only_below N c st1 st2"
    using PushUp_join [OF size1 ok st1(2,3)] st1(5) lazy by auto
  have "st_lazy st2 = st_lazy st1" using st2(1) PushUp_nat [OF size1 ok] by auto
  moreover have "Update_point_rec k x (node c) (node_range l (Suc h)) st = Some st2"
    unfolding Update_point_rec_node [OF l] using st1(1) st2(1) by simp
  ultimately show ?case using st2(2) only_below_trans [OF st1(4) st2(3)] st1(5) by auto
qed

lemma Build_node:
  assumes l: "l + 2 ^ Suc h \<le> 2 ^ 62"
  shows "Build (node c) (node_range l (Suc h)) st = do {
       st1 \<leftarrow> Build (node (2 * c)) (node_range l h) st;
       st2 \<leftarrow> Build (node (Suc (2 * c))) (node_range (l + 2 ^ h) h) st1;
       PushUp (node c) st2
     }"
proof -
  have "\<not> range_length (node_range l (Suc h)) = 1" using node_length_1 [OF l] by simp
  then show ?thesis
    by (subst Build.simps)
     (simp only: if_False Let_def node_middle [OF l] left_child right_child node_range_children)
qed

lemma Build_ok:
  assumes "tree_size N st" "node_ok N h c l" "clean st" "l + 2 ^ h \<le> N"
  shows "\<exists>st'. Build (node c) (node_range l h) st = Some st' \<and>
          represents h st' c l (\<lambda>_. 0) \<and> only_below N c st st' \<and> st_lazy st' = st_lazy st"
  using assms
proof (induction h arbitrary: c l st)
  case 0
  then have N: "N \<le> 2 ^ 63" and l: "l + 2 ^ 0 \<le> 2 ^ 62" by (simp_all add: node_ok_def)
  note idx = node_ok_index [OF "0.prems"(2)]
  let ?st' = "st\<lparr>st_sum := (st_sum st)[c := 0]\<rparr>"
  have "left (node_range l 0) = node l" by (simp add: node_range_def Range_def)
  moreover have "get_lazy (node l) st = Some 0"
    using accessors_nat(2) [OF "0.prems"(1) N, of l] "0.prems"(1,3,4) by (simp add: clean_def tree_size_def)
  ultimately have "Build (node c) (node_range l 0) st = Some ?st'"
    using node_length_1 [OF l] accessors_nat [OF "0.prems"(1) N idx] by (subst Build.simps) simp
  moreover have "only_below N c st ?st'"
    using "0.prems"(1) by (auto simp: only_below_def tree_size_def same_on_def dest: not_in_sub_neq)
  ultimately show ?case using "0.prems" idx by (auto simp: tree_size_def)
next
  case (Suc h)
  note ok = Suc.prems(2)
  have c: "1 \<le> c" and l: "l + 2 ^ Suc h \<le> 2 ^ 62" using ok by (simp_all add: node_ok_def)
  let ?z = "\<lambda>_::nat. 0::i32" and ?m = "l + 2 ^ h"
  from Suc.IH [OF Suc.prems(1) node_ok_children(1) [OF ok] Suc.prems(3)] Suc.prems(4)
  obtain st1 where st1: "Build (node (2 * c)) (node_range l h) st = Some st1" "represents h st1 (2 * c) l ?z"
    "only_below N (2 * c) st st1" "st_lazy st1 = st_lazy st" by auto
  have size1: "tree_size N st1" and cl1: "clean st1"
    using st1(3,4) Suc.prems(3) by (auto simp: only_below_def clean_def)
  from Suc.IH [OF size1 node_ok_children(2) [OF ok] cl1] Suc.prems(4)
  obtain st2 where st2: "Build (node (Suc (2 * c))) (node_range ?m h) st1 = Some st2"
    "represents h st2 (Suc (2 * c)) ?m ?z" "only_below N (Suc (2 * c)) st1 st2" "st_lazy st2 = st_lazy st1"
    by (auto simp: mult_2 add.assoc)
  have size2: "tree_size N st2" using st2(3) by (simp add: only_below_def)
  have lazy2: "st_lazy st2 ! c = 0"
    using st1(4) st2(4) Suc.prems(1,3) node_ok_index [OF ok] by (simp add: clean_def tree_size_def)
  obtain st3 where st3: "PushUp (node c) st2 = Some st3" "represents (Suc h) st3 c l ?z" "only_below N c st2 st3"
    using PushUp_join [OF size2 ok only_below_sibling(2) [OF c st2(3) st1(2)] st2(2) lazy2] by auto
  have "st_lazy st3 = st_lazy st2" using st3(1) PushUp_nat [OF size2 ok] by auto
  moreover have "Build (node c) (node_range l (Suc h)) st = Some st3"
    unfolding Build_node [OF l] using st1(1) st2(1) st3(1) by simp
  ultimately show ?case
    using st3(2) st1(4) st2(4)
      only_below_trans [OF only_below_child(1) [OF st1(3)] only_below_trans [OF only_below_child(2) [OF st2(3)] st3(3)]]
    by auto
qed


subsection \<open>The object and its contract\<close>

definition tree_for :: "nat \<Rightarrow> segtree \<Rightarrow> (nat \<Rightarrow> i32) \<Rightarrow> bool" where
  "tree_for k st a \<longleftrightarrow> tree_size (2 ^ Suc k) st \<and> st_root st = node 1 \<and>
     st_root_range st = node_range 1 k \<and> represents k st 1 1 a"

definition in_bounds :: "nat \<Rightarrow> range \<Rightarrow> bool" where
  "in_bounds k q \<longleftrightarrow> 1 \<le> unat (left q) \<and> unat (left q) \<le> unat (right q) \<and> unat (right q) \<le> 2 ^ k"

lemma root_ok: "k \<le> 61 \<Longrightarrow> node_ok (2 ^ Suc k) k 1 1"
proof -
  assume k: "k \<le> 61"
  have "(2::nat) ^ Suc k \<le> 2 ^ 62" using k by (intro power_increasing) auto
  moreover have "1 + 2 ^ k \<le> (2::nat) ^ 62"
  proof -
    have "(2::nat) ^ k \<le> 2 ^ 61" using k by (intro power_increasing) auto
    then show ?thesis by simp
  qed
  ultimately show ?thesis by (simp add: node_ok_def)
qed

lemma Query_ok:
  assumes "k \<le> 61" "tree_for k st a" "in_bounds k q"
  shows "\<exists>st'. Query q st = Some (\<Sum>i = unat (left q)..unat (right q). a i, st') \<and> tree_for k st' a \<and>
           (clean st \<longrightarrow> st' = st)"
proof -
  have eq: "{max 1 (unat (left q))..<min (1 + 2 ^ k) (Suc (unat (right q)))} = {unat (left q)..unat (right q)}"
    using assms(3) by (auto simp: in_bounds_def)
  have "\<exists>st'. Query q st = Some (\<Sum>i = max 1 (unat (left q))..<min (1 + 2 ^ k) (Suc (unat (right q))). a i, st') \<and>
         represents k st' 1 1 a \<and> only_below (2 ^ Suc k) 1 st st' \<and> (clean st \<longrightarrow> st' = st)"
    using Query_rec_ok [OF _ root_ok [OF assms(1)], of st a q] assms(2,3)
    by (simp add: Query_def tree_for_def in_bounds_def)
  then show ?thesis unfolding eq using assms(2) by (auto simp: tree_for_def only_below_def)
qed

lemma Update_range_ok:
  assumes "k \<le> 61" "tree_for k st a" "in_bounds k q"
  shows "\<exists>st'. Update_range q x st = Some st' \<and> tree_for k st' (range_add q x a)"
  using Update_range_rec_ok [OF _ root_ok [OF assms(1)], of st a q x] assms(2,3)
  by (auto simp: Update_range_def tree_for_def in_bounds_def only_below_def)

lemma Update_point_ok:
  assumes "k \<le> 61" "tree_for k st a" "1 \<le> unat i" "unat i \<le> 2 ^ k" "path_clean k st 1 1 (unat i)"
  shows "\<exists>st'. Update_point i x st = Some st' \<and> tree_for k st' (point_add (unat i) x a) \<and> st_lazy st' = st_lazy st"
  using Update_point_rec_ok [OF _ root_ok [OF assms(1)], of st a i x] assms(2-5)
  by (auto simp: Update_point_def tree_for_def only_below_def)

lemma SegmentTree_ok:
  assumes "k \<le> 61"
  shows "\<exists>st. SegmentTree (2 ^ k) = Some (Passed st) \<and> tree_for k st (\<lambda>_. 0) \<and> clean st"
proof -
  let ?len = "2 ^ k :: u64" and ?N = "2 ^ Suc k :: nat"
  have n: "node (2 ^ k) = ?len" by (simp add: node_def)
  have N: "unat (push_bit 1 ?len) = ?N"
  proof -
    have "?N < 2 ^ 64" using assms by (intro power_strict_increasing) auto
    then have "unat (node ?N) = ?N" by (rule unat_node)
    moreover have "push_bit 1 ?len = node ?N" by (simp add: node_def push_bit_eq_mult)
    ultimately show ?thesis by simp
  qed
  define st0 where "st0 = \<lparr> st_sum = replicate ?N (0::i32), st_lazy = replicate ?N 0, st_root = 1, st_root_range = Range 1 ?len \<rparr>"
  have r0: "Range 1 ?len = node_range 1 k" by (simp add: node_range_def node_def)
  have size0: "tree_size ?N st0" and clean0: "clean st0"
    by (simp_all add: st0_def tree_size_def clean_def)
  obtain st where st: "Build (node 1) (node_range 1 k) st0 = Some st" "represents k st 1 1 (\<lambda>_. 0)"
    "only_below ?N 1 st0 st" "st_lazy st = st_lazy st0"
    using Build_ok [OF size0 root_ok [OF assms] clean0] by auto
  have "tree_for k st (\<lambda>_. 0)" "clean st"
    using st clean0 by (auto simp: tree_for_def only_below_def st0_def r0 node_def clean_def)
  moreover have "SegmentTree ?len = Some (Passed st)"
  proof -
    have "unat (node (2 ^ k)) = 2 ^ k" using assms by (intro unat_node power_strict_increasing) auto
    then have "?len \<noteq> 0" using assms by (auto simp: n)
    moreover have "?len AND (?len - 1) = take_bit k ?len"
      by (simp add: take_bit_eq_mask mask_eq_exp_minus_1)
    moreover have "take_bit k ?len = 0"
      by (rule bit_eqI) (simp add: bit_take_bit_iff bit_exp_iff)
    ultimately show ?thesis
      unfolding SegmentTree_def N using st(1) by (simp add: st0_def r0 node_def)
  qed
  ultimately show ?thesis by blast
qed



subsection \<open>Sequences of calls\<close>

datatype st_op = PointAdd u64 i32 | RangeAdd range i32 | Sum range

fun st_valid :: "nat \<Rightarrow> st_op \<Rightarrow> bool" where
  "st_valid k (PointAdd i x) \<longleftrightarrow> 1 \<le> unat i \<and> unat i \<le> 2 ^ k"
| "st_valid k (RangeAdd q x) \<longleftrightarrow> in_bounds k q"
| "st_valid k (Sum q) \<longleftrightarrow> in_bounds k q"

text \<open>No point update after a range update.\<close>

fun points_first :: "st_op list \<Rightarrow> bool" where
  "points_first [] \<longleftrightarrow> True"
| "points_first (RangeAdd q x # ops) \<longleftrightarrow> (\<forall>op \<in> set ops. \<not> (\<exists>i y. op = PointAdd i y))"
| "points_first (_ # ops) \<longleftrightarrow> points_first ops"

fun st_run :: "segtree \<Rightarrow> st_op list \<Rightarrow> (i32 list \<times> segtree) option" where
  "st_run st [] = Some ([], st)"
| "st_run st (PointAdd i x # ops) = do { st' \<leftarrow> Update_point i x st; st_run st' ops }"
| "st_run st (RangeAdd q x # ops) = do { st' \<leftarrow> Update_range q x st; st_run st' ops }"
| "st_run st (Sum q # ops) = do {
     (s, st') \<leftarrow> Query q st;
     (rs, st'') \<leftarrow> st_run st' ops;
     Some (s # rs, st'')
   }"

fun array_run :: "(nat \<Rightarrow> i32) \<Rightarrow> st_op list \<Rightarrow> i32 list" where
  "array_run a [] = []"
| "array_run a (PointAdd i x # ops) = array_run (point_add (unat i) x a) ops"
| "array_run a (RangeAdd q x # ops) = array_run (range_add q x a) ops"
| "array_run a (Sum q # ops) = (\<Sum>i = unat (left q)..unat (right q). a i) # array_run a ops"

lemma st_run_ranges:
  assumes "k \<le> 61" "tree_for k st a" "\<forall>op \<in> set ops. st_valid k op"
    and "\<forall>op \<in> set ops. \<not> (\<exists>i y. op = PointAdd i y)"
  shows "\<exists>st'. st_run st ops = Some (array_run a ops, st')"
  using assms(2-4)
proof (induction ops arbitrary: st a)
  case (Cons op ops)
  show ?case
  proof (cases op)
    case (RangeAdd q x)
    with Cons.prems(2) Update_range_ok [OF assms(1) Cons.prems(1), of q x]
    obtain st' where "Update_range q x st = Some st'" "tree_for k st' (range_add q x a)" by auto
    with Cons.IH [of st'] Cons.prems(2,3) RangeAdd show ?thesis by simp
  next
    case (Sum q)
    with Cons.prems(2) Query_ok [OF assms(1) Cons.prems(1), of q]
    obtain st' where "Query q st = Some (\<Sum>i = unat (left q)..unat (right q). a i, st')" "tree_for k st' a" by auto
    with Cons.IH [of st' a] Cons.prems(2,3) Sum show ?thesis by auto
  qed (use Cons.prems in auto)
qed simp

lemma st_run_points_first:
  assumes "k \<le> 61" "tree_for k st a" "clean st" "\<forall>op \<in> set ops. st_valid k op" "points_first ops"
  shows "\<exists>st'. st_run st ops = Some (array_run a ops, st')"
  using assms(2-5)
proof (induction ops arbitrary: st a)
  case (Cons op ops)
  show ?case
  proof (cases op)
    case (PointAdd i x)
    have "path_clean k st 1 1 (unat i)"
      using clean_path_clean [OF Cons.prems(2) _ root_ok [OF assms(1)]] Cons.prems(1) by (simp add: tree_for_def)
    then obtain st' where "Update_point i x st = Some st'" "tree_for k st' (point_add (unat i) x a)"
        "st_lazy st' = st_lazy st"
      using Update_point_ok [OF assms(1) Cons.prems(1), of i x] PointAdd Cons.prems(3) by auto
    with Cons.IH [of st'] Cons.prems PointAdd show ?thesis by (simp add: clean_def)
  next
    case (RangeAdd q x)
    with Cons.prems have "\<forall>op \<in> set (op # ops). \<not> (\<exists>i y. op = PointAdd i y)" by auto
    with st_run_ranges [OF assms(1) Cons.prems(1,3)] show ?thesis by blast
  next
    case (Sum q)
    with Cons.prems(2,3) Query_ok [OF assms(1) Cons.prems(1), of q]
    have "Query q st = Some (\<Sum>i = unat (left q)..unat (right q). a i, st)" by auto
    with Cons.IH [of st a] Cons.prems Sum show ?thesis by auto
  qed
qed simp

subsection \<open>Properties\<close>

text \<open>
  (C20) A tree of any power-of-two length up to \<open>2^61\<close> that receives its point updates before its
  first range update answers every in-range query with the exact sum of the array the updates
  describe (32-bit two's complement), and no call accesses a vector out of range or fails to
  return.  This covers the constructor, both updates with lazy propagation, and queries in
  between.
\<close>

theorem segment_tree_correct:
  assumes "k \<le> 61" "\<forall>op \<in> set ops. st_valid k op" "points_first ops"
  shows "\<exists>st st'. SegmentTree (2 ^ k) = Some (Passed st) \<and>
           st_run st ops = Some (array_run (\<lambda>_. 0) ops, st')"
  using SegmentTree_ok [OF assms(1)] st_run_points_first [OF assms(1) _ _ assms(2,3)] by metis

theorem segment_tree_correct_witness:
  "\<exists>st st'. SegmentTree (2 ^ 4) = Some (Passed st) \<and>
     st_run st [Sum (Range 1 16), PointAdd 10 1234, Sum (Range 1 16), RangeAdd (Range 8 12) 20,
                Sum (Range 10 10)]
     = Some ([0, 1234, 1254], st')"
proof -
  let ?ops = "[Sum (Range 1 16), PointAdd 10 1234, Sum (Range 1 16), RangeAdd (Range 8 12) 20,
                Sum (Range 10 10)]"
  have "\<forall>op \<in> set ?ops. st_valid 4 op" by (simp add: in_bounds_def Range_def)
  moreover have "array_run (\<lambda>_. 0) ?ops = [0, 1234, 1254]"
    by (simp add: Range_def point_add_def range_add_def)
  ultimately show ?thesis using segment_tree_correct [of 4 ?ops] by simp
qed

text \<open>
  (C38) A point update is exact whenever no addition is pending on a proper ancestor of the leaf:
  the tree then represents the array with element \<open>i\<close> increased.
\<close>

theorem segment_tree_point_update:
  assumes "k \<le> 61" "tree_for k st a" "1 \<le> unat i" "unat i \<le> 2 ^ k" "path_clean k st 1 1 (unat i)"
  shows "\<exists>st'. Update_point i x st = Some st' \<and> tree_for k st' (point_add (unat i) x a)"
  using Update_point_ok [OF assms] by blast

theorem segment_tree_point_update_witness:
  "\<exists>st st'. SegmentTree 2 = Some (Passed st) \<and> path_clean 1 st 1 1 (unat (2 :: u64)) \<and>
     Update_point 2 7 st = Some st' \<and> tree_for 1 st' (point_add 2 7 (\<lambda>_. 0))"
proof -
  obtain st where st: "SegmentTree (2 ^ 1) = Some (Passed st)" "tree_for 1 st (\<lambda>_. 0)" "clean st"
    using SegmentTree_ok [of 1] by auto
  have pc: "path_clean 1 st 1 1 (unat (2 :: u64))"
    using clean_path_clean [OF st(3) _ root_ok [of 1]] st(2) by (simp add: tree_for_def)
  from segment_tree_point_update [OF _ st(2) _ _ pc, of 7] st(1) pc show ?thesis by simp
qed




end
