(* ===== verification/Trie26.thy ===== *)
theory Trie26
  imports Prelude "HOL-Library.Sublist"
begin

text \<open>
  The 26-letter trie of \<^verbatim>\<open>src/data_structure/trie/trie.h\<close>.  Every node is allocated by one \<open>Insert\<close>
  and linked from one parent, so the pointer structure is a tree.  The index \<open>ch - 'a'\<close> is
  computed in \<open>int\<close> and converted to \<open>size_t\<close>; it is not checked, so a character outside
  \<open>a\<close>..\<open>z\<close> is undefined behaviour.  The interface \<open>word_set\<close> states what a set of words with
  prefix queries promises.
\<close>

subsection \<open>Nodes and operations\<close>

datatype trie = TrieNode (childrens: "trie option list") (is_end: bool)

definition Trie :: trie where
  "Trie = TrieNode (replicate 26 None) False"

definition char_index :: "char \<Rightarrow> u64" where
  "char_index ch = word_of_int (char_val ch - 97)"

fun Insert :: "string \<Rightarrow> trie \<Rightarrow> trie option" where
  "Insert [] node = Some (TrieNode (childrens node) True)"
| "Insert (ch # word) node = do {
     child \<leftarrow> vget (childrens node) (unat (char_index ch));
     child' \<leftarrow> Insert word (case child of None \<Rightarrow> Trie | Some next \<Rightarrow> next);
     cs \<leftarrow> vset (childrens node) (unat (char_index ch)) (Some child');
     Some (TrieNode cs (is_end node))
   }"

text \<open>\<open>SearchPrefix\<close> yields \<open>Some None\<close> for the null pointer.\<close>

fun SearchPrefix :: "string \<Rightarrow> trie \<Rightarrow> trie option option" where
  "SearchPrefix [] node = Some (Some node)"
| "SearchPrefix (ch # pre) node = do {
     child \<leftarrow> vget (childrens node) (unat (char_index ch));
     case child of None \<Rightarrow> Some None | Some next \<Rightarrow> SearchPrefix pre next
   }"

definition Search :: "string \<Rightarrow> trie \<Rightarrow> bool option" where
  "Search word t = do {
     node \<leftarrow> SearchPrefix word t;
     Some (case node of None \<Rightarrow> False | Some n \<Rightarrow> is_end n)
   }"

definition StartWith :: "string \<Rightarrow> trie \<Rightarrow> bool option" where
  "StartWith pre t = do { node \<leftarrow> SearchPrefix pre t; Some (node \<noteq> None) }"

subsection \<open>The contract of a set of words\<close>

locale word_set =
  fixes empty :: 't
    and ins :: "'w list \<Rightarrow> 't \<Rightarrow> 't option"
    and member :: "'w list \<Rightarrow> 't \<Rightarrow> bool option"
    and starts :: "'w list \<Rightarrow> 't \<Rightarrow> bool option"
    and ok :: "'w list \<Rightarrow> bool"
    and invar :: "'t \<Rightarrow> bool"
    and words :: "'t \<Rightarrow> 'w list set"
  assumes invar_empty: "invar empty"
    and words_empty: "words empty = {}"
    and ins_ok: "invar t \<Longrightarrow> ok w \<Longrightarrow>
      \<exists>t'. ins w t = Some t' \<and> invar t' \<and> words t' = insert w (words t)"
    and member_ok: "invar t \<Longrightarrow> ok w \<Longrightarrow> member w t = Some (w \<in> words t)"
    and starts_ok: "invar t \<Longrightarrow> ok p \<Longrightarrow>
      starts p t = Some (p = [] \<or> (\<exists>w \<in> words t. prefix p w))"
begin

fun ins_all :: "'w list list \<Rightarrow> 't \<Rightarrow> 't option" where
  "ins_all [] t = Some t"
| "ins_all (w # ws) t = do { t' \<leftarrow> ins w t; ins_all ws t' }"

lemma ins_all_ok:
  "invar t \<Longrightarrow> \<forall>w \<in> set ws. ok w \<Longrightarrow>
   \<exists>t'. ins_all ws t = Some t' \<and> invar t' \<and> words t' = words t \<union> set ws"
proof (induction ws arbitrary: t)
  case (Cons w ws)
  from Cons.prems ins_ok [of t w] obtain t1
    where t1: "ins w t = Some t1" "invar t1" "words t1 = insert w (words t)" by auto
  from Cons.IH [OF t1(2)] Cons.prems t1 show ?case by auto
qed simp

lemma ins_all_queries:
  assumes "\<forall>w \<in> set ws. ok w"
  shows "\<exists>t. ins_all ws empty = Some t \<and>
     (\<forall>w. ok w \<longrightarrow> member w t = Some (w \<in> set ws)) \<and>
     (\<forall>p. ok p \<longrightarrow> starts p t = Some (p = [] \<or> (\<exists>w \<in> set ws. prefix p w)))"
  using ins_all_ok [OF invar_empty assms] member_ok starts_ok words_empty by auto

end

subsection \<open>The trie implements it\<close>

definition lower :: "string \<Rightarrow> bool" where
  "lower w \<longleftrightarrow> (\<forall>ch \<in> set w. of_char ch \<in> {97..122 :: nat})"

fun has_word :: "trie \<Rightarrow> bool" where
  "has_word (TrieNode cs e) \<longleftrightarrow> e \<or> (\<exists>c \<in> set cs. \<exists>t \<in> set_option c. has_word t)"

text \<open>26 slots per node, and no subtree below the root without a word.\<close>

fun trie_inv :: "trie \<Rightarrow> bool" where
  "trie_inv (TrieNode cs e) \<longleftrightarrow>
     length cs = 26 \<and> (\<forall>c \<in> set cs. \<forall>t \<in> set_option c. trie_inv t \<and> has_word t)"

definition trie_words :: "trie \<Rightarrow> string set" where
  "trie_words t = {w. lower w \<and> Search w t = Some True}"

lemma unat_char_index: "unat (char_index ch) = nat ((char_val ch - 97) mod 2 ^ 64)"
  by (simp add: char_index_def unat_word_of_int del: of_int_diff)

lemma char_index_lower:
  "of_char ch \<in> {97..122 :: nat} \<Longrightarrow> unat (char_index ch) = of_char ch - 97"
  by (simp add: unat_char_index char_val_def)

lemma char_index_other:
  assumes "of_char ch \<notin> {97..122 :: nat}"
  shows "\<not> unat (char_index ch) < 26"
proof (cases "of_char ch < (97 :: nat) \<or> of_char ch \<ge> (128 :: nat)")
  case True
  then have *: "- 225 \<le> char_val ch - 97" "char_val ch - 97 < 0"
    using nat_of_char_less_256 [of ch] by (auto simp: char_val_def Let_def simp del: nat_of_char_less_256)
  then have "(char_val ch - 97 + 2 ^ 64) mod 2 ^ 64 = char_val ch - 97 + 2 ^ 64"
    by (intro mod_pos_pos_trivial) auto
  then have "(char_val ch - 97) mod 2 ^ 64 = char_val ch - 97 + 2 ^ 64" by (simp only: mod_add_self2)
  with * show ?thesis by (simp add: unat_char_index)
next
  case False
  with assms show ?thesis by (auto simp: unat_char_index char_val_def Let_def)
qed

lemma lower_simps [simp]: "lower []" "lower (ch # w) \<longleftrightarrow> of_char ch \<in> {97..122 :: nat} \<and> lower w"
  by (auto simp: lower_def)

lemma Trie_ok [simp]: "trie_inv Trie" "\<not> has_word Trie" "lower w \<Longrightarrow> Search w Trie = Some False"
  subgoal by (simp add: Trie_def)
  subgoal by (simp add: Trie_def)
  subgoal by (cases w) (auto simp: Trie_def Search_def char_index_lower)
  done

lemma trie_inv_childrens:
  assumes "trie_inv t" "i < 26"
  obtains c where "vget (childrens t) i = Some c" "\<forall>n \<in> set_option c. trie_inv n \<and> has_word n"
proof (cases t)
  case (TrieNode cs e)
  with assms have "vget (childrens t) i = Some (cs ! i)" "cs ! i \<in> set cs" by auto
  with TrieNode assms that show thesis by auto
qed

lemma trie_inv_vset:
  assumes "trie_inv t" "i < 26" "trie_inv n" "has_word n"
  shows "\<exists>cs. vset (childrens t) i (Some n) = Some cs \<and> trie_inv (TrieNode cs e) \<and> has_word (TrieNode cs e) \<and>
     (\<forall>j. vget cs j = (if j = i then Some (Some n) else vget (childrens t) j))"
proof (cases t)
  case (TrieNode cs b)
  have "Some n \<in> set (cs[i := Some n])" using assms TrieNode by (simp add: set_update_memI)
  then have "\<exists>c \<in> set (cs[i := Some n]). \<exists>t \<in> set_option c. has_word t" using assms(4) by force
  moreover have "\<forall>c \<in> set (cs[i := Some n]). \<forall>t \<in> set_option c. trie_inv t \<and> has_word t"
    using set_update_subset_insert [of cs i "Some n"] assms TrieNode by auto
  ultimately show ?thesis using assms TrieNode by (simp add: vset_def vget_def nth_list_update)
qed

lemma char_index_inj: "of_char a \<in> {97..122 :: nat} \<Longrightarrow> of_char b \<in> {97..122 :: nat} \<Longrightarrow>
    unat (char_index a) = unat (char_index b) \<longleftrightarrow> a = b"
  by (auto simp: char_index_lower) (metis le_add_diff_inverse of_char_eq_iff)

lemma Insert_ok:
  "trie_inv t \<Longrightarrow> lower w \<Longrightarrow> \<exists>t'. Insert w t = Some t' \<and> trie_inv t' \<and> has_word t' \<and>
     (\<forall>v. lower v \<longrightarrow> Search v t' = (if v = w then Some True else Search v t))"
proof (induction w arbitrary: t)
  case Nil
  have "Search v (TrieNode (childrens t) True) = Search v t" if "v \<noteq> []" for v
    using that by (cases v) (simp_all add: Search_def)
  moreover have "Search [] (TrieNode (childrens t) True) = Some True" by (simp add: Search_def)
  moreover from Nil have "trie_inv (TrieNode (childrens t) True)" by (cases t) simp
  ultimately show ?case by simp
next
  case (Cons ch w)
  let ?i = "unat (char_index ch)"
  from Cons.prems have ch: "of_char ch \<in> {97..122 :: nat}" and i: "?i < 26" by (auto simp: char_index_lower)
  obtain c where c: "vget (childrens t) ?i = Some c" "\<forall>n \<in> set_option c. trie_inv n \<and> has_word n"
    using trie_inv_childrens [OF Cons.prems(1) i] .
  define n where "n = (case c of None \<Rightarrow> Trie | Some next \<Rightarrow> next)"
  have "trie_inv n" using c(2) by (simp add: n_def split: option.split)
  from Cons.IH [OF this] Cons.prems obtain n' where n': "Insert w n = Some n'" "trie_inv n'" "has_word n'"
    "\<And>v. lower v \<Longrightarrow> Search v n' = (if v = w then Some True else Search v n)" by auto
  from trie_inv_vset [OF Cons.prems(1) i n'(2,3)] obtain cs
    where cs: "vset (childrens t) ?i (Some n') = Some cs" "trie_inv (TrieNode cs (is_end t))"
      "has_word (TrieNode cs (is_end t))" "\<And>j. vget cs j = (if j = ?i then Some (Some n') else vget (childrens t) j)"
    by blast
  have "Search v (TrieNode cs (is_end t)) = (if v = ch # w then Some True else Search v t)" if v: "lower v" for v
  proof (cases v)
    case (Cons a u)
    show ?thesis
    proof (cases "a = ch")
      case True
      have "Search v t = Search u n" using v True Cons c
        by (cases c) (simp_all add: Search_def n_def, simp flip: Search_def)
      moreover have "Search v (TrieNode cs (is_end t)) = Search u n'"
        using True Cons cs(4) by (simp add: Search_def)
      ultimately show ?thesis using True Cons n'(4) v by simp
    next
      case False
      with v Cons char_index_inj [of a ch] ch show ?thesis by (simp add: Search_def cs(4))
    qed
  qed (simp add: Search_def)
  moreover have "Insert (ch # w) t = Some (TrieNode cs (is_end t))" using c n' cs by (simp add: n_def)
  ultimately show ?case using cs by blast
qed

lemma SearchPrefix_ok:
  "trie_inv t \<Longrightarrow> lower p \<Longrightarrow> \<exists>c. SearchPrefix p t = Some c \<and>
     (\<forall>n \<in> set_option c. trie_inv n \<and> (p = [] \<or> has_word n)) \<and>
     (\<forall>v. SearchPrefix (p @ v) t = (case c of None \<Rightarrow> Some None | Some n \<Rightarrow> SearchPrefix v n))"
proof (induction p arbitrary: t)
  case (Cons ch p)
  let ?i = "unat (char_index ch)"
  from Cons.prems have i: "?i < 26" by (auto simp: char_index_lower)
  obtain c where c: "vget (childrens t) ?i = Some c" "\<forall>n \<in> set_option c. trie_inv n \<and> has_word n"
    using trie_inv_childrens [OF Cons.prems(1) i] .
  show ?case
  proof (cases c)
    case (Some n)
    with c Cons.IH [of n] Cons.prems show ?thesis by (cases p) auto
  qed (use c in simp)
qed simp

lemma has_word_Search: "trie_inv t \<Longrightarrow> has_word t \<Longrightarrow> \<exists>w. lower w \<and> Search w t = Some True"
proof (induction t)
  case (TrieNode cs e)
  show ?case
  proof (cases e)
    case True
    then show ?thesis by (intro exI [of _ "[]"]) (simp add: Search_def)
  next
    case False
    with TrieNode.prems obtain i n where i: "i < 26" "cs ! i = Some n" "Some n \<in> set cs" "has_word n" "trie_inv n"
      by (auto simp: in_set_conv_nth) (metis nth_mem option.set_intros)
    with TrieNode.IH [of "Some n" n] obtain w where w: "lower w" "Search w n = Some True" by auto
    have ch: "of_char (char_of (i + 97) :: char) = i + 97" using i by simp
    then have "unat (char_index (char_of (i + 97))) = i" using i by (subst char_index_lower) auto
    with w i ch TrieNode.prems show ?thesis
      by (intro exI [of _ "char_of (i + 97) # w"]) (simp add: Search_def vget_def)
  qed
qed

lemma Search_total: "trie_inv t \<Longrightarrow> lower w \<Longrightarrow> \<exists>b. Search w t = Some b"
  using SearchPrefix_ok [of t w] by (auto simp: Search_def)

lemma StartWith_ok:
  assumes t: "trie_inv t" and p: "lower p"
  shows "StartWith p t = Some (p = [] \<or> (\<exists>w \<in> trie_words t. prefix p w))"
proof -
  obtain c where c: "SearchPrefix p t = Some c" "\<forall>n \<in> set_option c. trie_inv n \<and> (p = [] \<or> has_word n)"
    "\<And>v. SearchPrefix (p @ v) t = (case c of None \<Rightarrow> Some None | Some n \<Rightarrow> SearchPrefix v n)"
    using SearchPrefix_ok [OF t p] by auto
  show ?thesis
  proof (cases c)
    case None
    with c p show ?thesis by (auto simp: StartWith_def trie_words_def Search_def prefix_def)
  next
    case (Some n)
    have "\<exists>w \<in> trie_words t. prefix p w" if "p \<noteq> []"
    proof -
      from that c(2) Some obtain v where "lower v" "Search v n = Some True" using has_word_Search [of n] by auto
      with p c(3) [of v] Some have "p @ v \<in> trie_words t" by (auto simp: trie_words_def Search_def lower_def)
      then show ?thesis by (rule bexI [rotated]) simp
    qed
    with c Some show ?thesis by (auto simp: StartWith_def)
  qed
qed

interpretation tr: word_set Trie Insert Search StartWith lower trie_inv trie_words
proof
  fix t w
  assume t: "trie_inv t" and w: "lower w"
  show "\<exists>t'. Insert w t = Some t' \<and> trie_inv t' \<and> trie_words t' = insert w (trie_words t)"
    using Insert_ok [OF t w] w by (auto simp: trie_words_def split: if_splits)
  show "Search w t = Some (w \<in> trie_words t)"
    using Search_total [OF t w] w by (auto simp: trie_words_def)
qed (auto simp: trie_words_def StartWith_ok)

subsection \<open>Properties\<close>

text \<open>Consecutive \<open>Insert\<close> calls on one trie.\<close>

fun Insert_list :: "string list \<Rightarrow> trie \<Rightarrow> trie option" where
  "Insert_list [] t = Some t"
| "Insert_list (w # ws) t = do { t' \<leftarrow> Insert w t; Insert_list ws t' }"

lemma Insert_list_eq: "tr.ins_all ws t = Insert_list ws t"
  by (induction ws arbitrary: t) (simp_all cong: Option.bind_cong)

text \<open>
  (C24) After any sequence of insertions of lower-case words into an empty trie, \<open>Search\<close> answers
  exactly membership among the inserted words and \<open>StartWith\<close> exactly whether an inserted word
  extends the prefix (the empty prefix always succeeds); no call leaves the child vectors.
\<close>

theorem trie_correct:
  assumes "\<forall>w \<in> set ws. lower w"
  shows "\<exists>t. Insert_list ws Trie = Some t \<and>
     (\<forall>w. lower w \<longrightarrow> Search w t = Some (w \<in> set ws)) \<and>
     (\<forall>p. lower p \<longrightarrow> StartWith p t = Some (p = [] \<or> (\<exists>w \<in> set ws. prefix p w)))"
  using tr.ins_all_queries [OF assms] by (simp add: Insert_list_eq)

theorem trie_correct_witness:
  "\<exists>t. Insert_list [''car'', ''cart'', ''dog''] Trie = Some t \<and> Search ''car'' t = Some True \<and>
     Search ''ca'' t = Some False \<and> StartWith ''ca'' t = Some True \<and> StartWith ''cat'' t = Some False"
proof -
  have ok: "\<forall>w \<in> set [''car'', ''cart'', ''dog'']. lower w" by simp
  obtain t where t: "Insert_list [''car'', ''cart'', ''dog''] Trie = Some t"
    "\<And>w. lower w \<Longrightarrow> Search w t = Some (w \<in> set [''car'', ''cart'', ''dog''])"
    "\<And>p. lower p \<Longrightarrow> StartWith p t = Some (p = [] \<or> (\<exists>w \<in> set [''car'', ''cart'', ''dog'']. prefix p w))"
    using trie_correct [OF ok] by blast
  show ?thesis by (intro exI [of _ t] conjI, rule t(1)) (simp_all add: t(2,3))
qed

text \<open>
  The index is not checked: searching or inserting a word that starts with any character
  outside \<open>a\<close>..\<open>z\<close>, upper case included, accesses the child vector out of range.
\<close>

lemma trie_unchecked_index:
  assumes "of_char ch \<notin> {97..122 :: nat}"
  shows "Insert (ch # w) Trie = None \<and> Search (ch # w) Trie = None \<and> StartWith (ch # w) Trie = None"
proof -
  have "\<not> unat (char_index ch) < 26" using char_index_other [OF assms] .
  then show ?thesis by (simp add: Trie_def Search_def StartWith_def vget_def)
qed

end
