(* ===== verification/Simulation.thy ===== *)
theory Simulation
  imports Prelude
begin

text \<open>
  Runs of a concurrent object and the contract by which its proofs proceed.  A step relation is
  labelled with the operation that takes effect in the step, if one does (its linearization
  point); a run collects these labels.  The locale \<open>forward_simulation\<close> is the interface between a
  concurrent object and its sequential specification: every step is matched by the
  specification's transition for its label, or by none.
\<close>

inductive run :: "('s \<Rightarrow> 'e option \<Rightarrow> 's \<Rightarrow> bool) \<Rightarrow> 's \<Rightarrow> 'e list \<Rightarrow> 's \<Rightarrow> bool"
  for step :: "'s \<Rightarrow> 'e option \<Rightarrow> 's \<Rightarrow> bool" where
  run_refl: "run step s [] s"
| run_silent: "run step s es t \<Longrightarrow> step t None u \<Longrightarrow> run step s es u"
| run_event: "run step s es t \<Longrightarrow> step t (Some e) u \<Longrightarrow> run step s (es @ [e]) u"

inductive spec_run :: "('e \<Rightarrow> 'a \<Rightarrow> 'a \<Rightarrow> bool) \<Rightarrow> 'a \<Rightarrow> 'e list \<Rightarrow> 'a \<Rightarrow> bool"
  for spec :: "'e \<Rightarrow> 'a \<Rightarrow> 'a \<Rightarrow> bool" where
  spec_refl: "spec_run spec a [] a"
| spec_event: "spec_run spec a es b \<Longrightarrow> spec e b c \<Longrightarrow> spec_run spec a (es @ [e]) c"

lemma spec_run_Nil [simp]: "spec_run spec a [] c \<longleftrightarrow> c = a"
  by (auto elim: spec_run.cases intro: spec_refl)

lemma spec_run_Cons [simp]:
  "spec_run spec a (e # es) c \<longleftrightarrow> (\<exists>b. spec e a b \<and> spec_run spec b es c)"
proof
  have "spec_run spec a fs c \<Longrightarrow> fs = e # es \<Longrightarrow> \<exists>b. spec e a b \<and> spec_run spec b es c" for fs
  proof (induction arbitrary: es rule: spec_run.induct)
    case (spec_event a fs b f c)
    then show ?case by (cases fs) (auto intro: spec_run.spec_event)
  qed simp
  then show "spec_run spec a (e # es) c \<Longrightarrow> \<exists>b. spec e a b \<and> spec_run spec b es c" by simp
next
  have "spec_run spec b es c \<Longrightarrow> spec e a b \<Longrightarrow> spec_run spec a (e # es) c" for b
    by (induction rule: spec_run.induct)
      (use spec_run.spec_event spec_refl in \<open>fastforce simp flip: append_Cons\<close>)+
  then show "\<exists>b. spec e a b \<and> spec_run spec b es c \<Longrightarrow> spec_run spec a (e # es) c" by blast
qed

definition reachable :: "('s \<Rightarrow> 'e option \<Rightarrow> 's \<Rightarrow> bool) \<Rightarrow> 's \<Rightarrow> 's \<Rightarrow> bool" where
  "reachable step s t \<longleftrightarrow> (\<exists>es. run step s es t)"

lemma run_trans: "run step t es' u \<Longrightarrow> run step s es t \<Longrightarrow> run step s (es @ es') u"
proof (induction rule: run.induct)
  case (run_event t es' u e w)
  then show ?case using run.run_event [of step s "es @ es'" u e w] by simp
qed (auto intro: run.intros)

lemma run_step: "step s l t \<Longrightarrow> run step s (case l of None \<Rightarrow> [] | Some e \<Rightarrow> [e]) t"
  using run.run_silent [OF run_refl, of step s t] run.run_event [OF run_refl, of step s _ t]
  by (auto split: option.split)

lemma run_invariant:
  assumes "run step s es t" "I s" "\<And>s l t. step s l t \<Longrightarrow> I s \<Longrightarrow> I t"
  shows "I t"
  using assms(1,2) by (induction) (auto dest: assms(3))

text \<open>
  Scheduled executions: \<open>act\<close> performs the step a scheduler chose, if it is enabled.  An execution
  of a schedule is a run.
\<close>

fun exec :: "('c \<Rightarrow> 's \<Rightarrow> ('e option \<times> 's) option) \<Rightarrow> 'c list \<Rightarrow> 's \<Rightarrow> ('e list \<times> 's) option" where
  "exec act [] s = Some ([], s)"
| "exec act (c # cs) s = do {
     (l, s1) \<leftarrow> act c s;
     (es, s2) \<leftarrow> exec act cs s1;
     Some ((case l of None \<Rightarrow> es | Some e \<Rightarrow> e # es), s2)
   }"

lemma exec_run:
  assumes "\<And>c s l s'. act c s = Some (l, s') \<Longrightarrow> step s l s'"
  shows "exec act cs s = Some (es, s') \<Longrightarrow> run step s es s'"
proof (induction cs arbitrary: s es)
  case (Cons c cs)
  then obtain l s1 es1 where *: "act c s = Some (l, s1)" "exec act cs s1 = Some (es1, s')"
    "es = (case l of None \<Rightarrow> es1 | Some e \<Rightarrow> e # es1)"
    by (auto simp: bind_eq_Some_iff)
  from run_trans [OF Cons.IH [OF *(2)] run_step [of step s l s1, OF assms [OF *(1)]]] *(3)
  show ?case by (simp split: option.splits)
qed (simp add: run_refl)

locale forward_simulation =
  fixes step :: "'s \<Rightarrow> 'e option \<Rightarrow> 's \<Rightarrow> bool"
    and spec :: "'e \<Rightarrow> 'a \<Rightarrow> 'a \<Rightarrow> bool"
    and rel :: "'s \<Rightarrow> 'a \<Rightarrow> bool"
  assumes silent: "rel s a \<Longrightarrow> step s None t \<Longrightarrow> rel t a"
    and commit: "rel s a \<Longrightarrow> step s (Some e) t \<Longrightarrow> \<exists>b. spec e a b \<and> rel t b"
begin

lemma run_simulated:
  "run step s es t \<Longrightarrow> rel s a \<Longrightarrow> \<exists>b. spec_run spec a es b \<and> rel t b"
proof (induction rule: run.induct)
  case (run_event s es t e u)
  then show ?case using commit by (blast intro: spec_event)
qed (auto intro: spec_refl dest: silent)

end

end
