(* ===== verification/Lockfree_Stack.thy ===== *)
theory Lockfree_Stack
  imports Simulation
begin

text \<open>
  The Treiber stack of \<^verbatim>\<open>src/lockfree/lockfree_stack.cpp\<close> as an interleaving of its atomic
  steps.  Nodes are addresses (naturals, the null pointer is \<^const>\<open>None\<close>); the shared state is
  \<open>head_\<close> and the \<open>next\<close> fields, and each thread is at one program point of \<open>Push\<close> or \<open>Pop\<close>.
  \<open>compare_exchange_weak\<close> succeeds only when the head equals the expected pointer and may also
  fail spuriously.  The atomics use the default (sequentially consistent) order.  The sets
  \<open>ls_handed\<close>, \<open>ls_linked\<close> and \<open>ls_returned\<close> record which nodes were ever handed to \<open>Push\<close>, were ever
  linked, and were returned by \<open>Pop\<close> and not pushed since; they are history, no step of the
  stack's own code reads them.
\<close>

subsection \<open>State and steps\<close>

datatype stack_pc =
    Idle
  | PushLoad nat
  | PushSet nat "nat option"
  | PushCas nat "nat option"
  | PopLoad
  | PopRead nat
  | PopCas nat "nat option"

record lstack =
  ls_head :: "nat option"
  ls_next :: "nat \<Rightarrow> nat option"
  ls_pc :: "nat \<Rightarrow> stack_pc"
  ls_handed :: "nat set"
  ls_linked :: "nat set"
  ls_returned :: "nat set"

definition LockFreeStack :: lstack where
  "LockFreeStack = \<lparr> ls_head = None, ls_next = (\<lambda>_. None), ls_pc = (\<lambda>_. Idle),
                     ls_handed = {}, ls_linked = {}, ls_returned = {} \<rparr>"

definition goto :: "nat \<Rightarrow> stack_pc \<Rightarrow> lstack \<Rightarrow> lstack" where
  "goto t p s = s\<lparr>ls_pc := (ls_pc s)(t := p)\<rparr>"

datatype stack_event = Pushed nat | Popped "nat option"

text \<open>
  \<open>reuse\<close> is the callers' discipline: without it a node is handed to \<open>Push\<close> once in its life, with
  it a node may be pushed again after it left the stack (the caller recycles nodes, or the
  allocator returns the address of a deleted one).
\<close>

inductive stack_step :: "bool \<Rightarrow> lstack \<Rightarrow> stack_event option \<Rightarrow> lstack \<Rightarrow> bool" for reuse :: bool where
  push_call: "ls_pc s t = Idle \<Longrightarrow> n \<notin> ls_handed s \<or> reuse \<and> n \<in> ls_returned s \<Longrightarrow>
    stack_step reuse s None
      (goto t (PushLoad n) (s\<lparr>ls_handed := insert n (ls_handed s), ls_returned := ls_returned s - {n}\<rparr>))"
| push_load: "ls_pc s t = PushLoad n \<Longrightarrow> stack_step reuse s None (goto t (PushSet n (ls_head s)) s)"
| push_set: "ls_pc s t = PushSet n h \<Longrightarrow>
    stack_step reuse s None (goto t (PushCas n h) (s\<lparr>ls_next := (ls_next s)(n := h)\<rparr>))"
| push_cas: "ls_pc s t = PushCas n h \<Longrightarrow> ls_head s = h \<Longrightarrow>
    stack_step reuse s (Some (Pushed n))
      (goto t Idle (s\<lparr>ls_head := Some n, ls_linked := insert n (ls_linked s)\<rparr>))"
| push_retry: "ls_pc s t = PushCas n h \<Longrightarrow> stack_step reuse s None (goto t (PushLoad n) s)"
| pop_call: "ls_pc s t = Idle \<Longrightarrow> stack_step reuse s None (goto t PopLoad s)"
| pop_empty: "ls_pc s t = PopLoad \<Longrightarrow> ls_head s = None \<Longrightarrow>
    stack_step reuse s (Some (Popped None)) (goto t Idle s)"
| pop_load: "ls_pc s t = PopLoad \<Longrightarrow> ls_head s = Some h \<Longrightarrow> stack_step reuse s None (goto t (PopRead h) s)"
| pop_read: "ls_pc s t = PopRead h \<Longrightarrow> stack_step reuse s None (goto t (PopCas h (ls_next s h)) s)"
| pop_cas: "ls_pc s t = PopCas h n \<Longrightarrow> ls_head s = Some h \<Longrightarrow>
    stack_step reuse s (Some (Popped (Some h))) 
      (goto t Idle (s\<lparr>ls_head := n, ls_returned := insert h (ls_returned s)\<rparr>))"
| pop_retry: "ls_pc s t = PopCas h n \<Longrightarrow> stack_step reuse s None (goto t PopLoad s)"

inductive_cases stack_stepE: "stack_step reuse s l s'"

text \<open>
  The destructor: \<open>Pop\<close> until the null pointer, deleting each node.  It runs after all other
  calls, so each \<open>Pop\<close> takes the current head; the result is the list of deleted nodes.
\<close>

partial_function (option) destructor :: "(nat \<Rightarrow> nat option) \<Rightarrow> nat option \<Rightarrow> nat list option" where
  "destructor nxt head =
     (case head of None \<Rightarrow> Some []
      | Some node \<Rightarrow> do { rest \<leftarrow> destructor nxt (nxt node); Some (node # rest) })"

declare destructor.simps [code]

subsection \<open>The sequential stack and the simulation\<close>

fun stack_spec :: "stack_event \<Rightarrow> nat list \<Rightarrow> nat list \<Rightarrow> bool" where
  "stack_spec (Pushed n) xs ys \<longleftrightarrow> ys = n # xs"
| "stack_spec (Popped None) xs ys \<longleftrightarrow> xs = [] \<and> ys = []"
| "stack_spec (Popped (Some n)) xs ys \<longleftrightarrow> xs = n # ys"

fun chain :: "(nat \<Rightarrow> nat option) \<Rightarrow> nat option \<Rightarrow> nat list \<Rightarrow> bool" where
  "chain nxt p [] \<longleftrightarrow> p = None"
| "chain nxt p (x # xs) \<longleftrightarrow> p = Some x \<and> chain nxt (nxt x) xs"

fun pushing :: "stack_pc \<Rightarrow> nat option" where
  "pushing (PushLoad n) = Some n"
| "pushing (PushSet n h) = Some n"
| "pushing (PushCas n h) = Some n"
| "pushing _ = None"

text \<open>What a thread knows about the shared state at its program point.\<close>

fun pc_ok :: "lstack \<Rightarrow> stack_pc \<Rightarrow> bool" where
  "pc_ok s (PushCas n h) \<longleftrightarrow> ls_next s n = h"
| "pc_ok s (PopRead h) \<longleftrightarrow> h \<in> ls_linked s"
| "pc_ok s (PopCas h n) \<longleftrightarrow> h \<in> ls_linked s \<and> ls_next s h = n"
| "pc_ok s _ \<longleftrightarrow> True"

text \<open>A node being pushed is not linked yet, and only one thread pushes it.\<close>

definition owners_ok :: "(nat \<Rightarrow> nat option) \<Rightarrow> nat set \<Rightarrow> bool" where
  "owners_ok own fresh \<longleftrightarrow>
     (\<forall>t n. own t = Some n \<longrightarrow> n \<in> fresh) \<and> (\<forall>t u n. own t = Some n \<longrightarrow> own u = Some n \<longrightarrow> t = u)"

definition stack_rel :: "lstack \<Rightarrow> nat list \<Rightarrow> bool" where
  "stack_rel s xs \<longleftrightarrow>
     chain (ls_next s) (ls_head s) xs \<and> distinct xs \<and> set xs \<subseteq> ls_linked s \<and> ls_linked s \<subseteq> ls_handed s \<and>
     (\<forall>t. pc_ok s (ls_pc s t)) \<and> owners_ok (pushing \<circ> ls_pc s) (ls_handed s - ls_linked s)"

lemma owners_ok_drop: "owners_ok own fresh \<Longrightarrow> owners_ok (own(t := None)) fresh"
  by (auto simp: owners_ok_def)

lemma owners_ok_link: "owners_ok own fresh \<Longrightarrow> own t = Some n \<Longrightarrow> owners_ok (own(t := None)) (fresh - {n})"
  by (auto simp: owners_ok_def)

lemma owners_ok_new: "owners_ok own fresh \<Longrightarrow> n \<notin> fresh \<Longrightarrow> owners_ok (own(t := Some n)) (insert n fresh)"
  by (auto simp: owners_ok_def)

lemma owners_okD: "owners_ok own fresh \<Longrightarrow> own t = Some n \<Longrightarrow> n \<in> fresh \<and> (\<forall>u. u \<noteq> t \<longrightarrow> own u \<noteq> Some n)"
  by (auto simp: owners_ok_def)

lemma chain_upd: "n \<notin> set xs \<Longrightarrow> chain (nxt(n := h)) p xs \<longleftrightarrow> chain nxt p xs"
  by (induction xs arbitrary: p) auto

lemma chain_None [simp]: "chain nxt None xs \<longleftrightarrow> xs = []"
  by (cases xs) auto

lemma chain_Some: "chain nxt (Some x) xs \<longleftrightarrow> (\<exists>ys. xs = x # ys \<and> chain nxt (nxt x) ys)"
  by (cases xs) auto

lemma stack_rel_init: "stack_rel LockFreeStack []"
  by (simp add: stack_rel_def LockFreeStack_def owners_ok_def)


lemma goto_simps [simp]:
  "ls_head (goto t p s) = ls_head s" "ls_next (goto t p s) = ls_next s"
  "ls_pc (goto t p s) = (ls_pc s)(t := p)" "ls_handed (goto t p s) = ls_handed s"
  "ls_linked (goto t p s) = ls_linked s" "ls_returned (goto t p s) = ls_returned s"
  by (simp_all add: goto_def)

text \<open>\<open>pc_ok\<close> depends only on the \<open>next\<close> fields of nodes it mentions and on \<open>ls_linked\<close>.\<close>

lemma pc_ok_mono:
  assumes "pc_ok s p" "ls_linked s \<subseteq> ls_linked s'"
    "\<And>n. n \<in> ls_linked s \<or> pushing p = Some n \<Longrightarrow> ls_next s' n = ls_next s n"
  shows "pc_ok s' p"
  using assms by (cases p) auto

lemma pushing_upd: "pushing \<circ> (pc(t := p)) = (pushing \<circ> pc)(t := pushing p)"
  by auto

lemma stack_rel_goto:
  assumes r: "stack_rel s xs" and p: "pc_ok s p" "pushing p = pushing (ls_pc s t) \<or> pushing p = None"
  shows "stack_rel (goto t p s) xs"
proof -
  have "pc_ok (goto t p s) (ls_pc (goto t p s) u)" for u
    using r p(1) by - (rule pc_ok_mono [of s], simp_all add: stack_rel_def)
  moreover have "owners_ok ((pushing \<circ> ls_pc s)(t := pushing p)) (ls_handed s - ls_linked s)"
    using p(2)
  proof
    assume "pushing p = pushing (ls_pc s t)"
    then have "(pushing \<circ> ls_pc s)(t := pushing p) = pushing \<circ> ls_pc s" by auto
    with r show ?thesis by (simp add: stack_rel_def)
  next
    assume "pushing p = None"
    with r owners_ok_drop show ?thesis by (simp add: stack_rel_def)
  qed
  ultimately show ?thesis using r by (simp add: stack_rel_def pushing_upd)
qed

lemma stack_rel_pc: "stack_rel s xs \<Longrightarrow> ls_pc s t = p \<Longrightarrow> pc_ok s p"
  by (auto simp: stack_rel_def)

lemma stack_rel_owner:
  "stack_rel s xs \<Longrightarrow> pushing (ls_pc s t) = Some n \<Longrightarrow>
   n \<in> ls_handed s \<and> n \<notin> ls_linked s \<and> (\<forall>u. u \<noteq> t \<longrightarrow> pushing (ls_pc s u) \<noteq> Some n)"
  using owners_okD [of "pushing \<circ> ls_pc s" _ t n] by (auto simp: stack_rel_def)

lemma stack_rel_push_call:
  assumes r: "stack_rel s xs" and n: "n \<notin> ls_handed s"
  shows "stack_rel (goto t (PushLoad n) (s\<lparr>ls_handed := insert n (ls_handed s), ls_returned := ls_returned s - {n}\<rparr>)) xs"
    (is "stack_rel ?s _")
proof -
  have "pc_ok ?s (ls_pc ?s u)" for u
    using r by - (rule pc_ok_mono [of s], auto simp: stack_rel_def)
  moreover have "insert n (ls_handed s) - ls_linked s = insert n (ls_handed s - ls_linked s)"
    using r n by (auto simp: stack_rel_def)
  ultimately show ?thesis using r n owners_ok_new [of "pushing \<circ> ls_pc s" _ n t]
    by (auto simp: stack_rel_def pushing_upd)
qed

lemma stack_rel_push_set:
  assumes r: "stack_rel s xs" and n: "ls_pc s t = PushSet n h"
  shows "stack_rel (goto t (PushCas n h) (s\<lparr>ls_next := (ls_next s)(n := h)\<rparr>)) xs" (is "stack_rel ?s _")
proof -
  have n': "n \<in> ls_handed s" "n \<notin> ls_linked s" "u \<noteq> t \<Longrightarrow> pushing (ls_pc s u) \<noteq> Some n" for u
    using stack_rel_owner [OF r, of t n] n by auto
  have "pc_ok ?s (ls_pc ?s u)" for u
    using r n' by (cases "u = t", simp) (rule pc_ok_mono [of s], auto simp: stack_rel_def)
  moreover have "n \<notin> set xs" using r n' by (auto simp: stack_rel_def)
  then have "chain (ls_next ?s) (ls_head s) xs" using r by (simp add: stack_rel_def chain_upd)
  moreover have "(pushing \<circ> ls_pc s)(t := Some n) = pushing \<circ> ls_pc s" using n by auto
  ultimately show ?thesis using r by (simp add: stack_rel_def pushing_upd)
qed

lemma stack_rel_push_cas:
  assumes r: "stack_rel s xs" and n: "ls_pc s t = PushCas n (ls_head s)"
  shows "stack_rel (goto t Idle (s\<lparr>ls_head := Some n, ls_linked := insert n (ls_linked s)\<rparr>)) (n # xs)"
    (is "stack_rel ?s _")
proof -
  have n': "n \<in> ls_handed s" "n \<notin> ls_linked s" using stack_rel_owner [OF r, of t n] n by auto
  have nh: "ls_next s n = ls_head s" using stack_rel_pc [OF r n] by simp
  have pc: "pc_ok ?s (ls_pc ?s u)" for u
    using r by - (rule pc_ok_mono [of s], auto simp: stack_rel_def)
  have "owners_ok (pushing \<circ> ls_pc ?s) (ls_handed s - ls_linked s - {n})"
    using owners_ok_link [of "pushing \<circ> ls_pc s" _ t n] r n by (simp add: stack_rel_def pushing_upd)
  moreover have "ls_handed s - ls_linked s - {n} = ls_handed s - insert n (ls_linked s)" by auto
  ultimately show ?thesis using r pc n' nh by (auto simp: stack_rel_def)
qed

lemma stack_rel_pop_cas:
  assumes r: "stack_rel s xs" and h: "ls_pc s t = PopCas h n" "ls_head s = Some h"
  shows "\<exists>ys. xs = h # ys \<and>
    stack_rel (goto t Idle (s\<lparr>ls_head := n, ls_returned := insert h (ls_returned s)\<rparr>)) ys" (is "\<exists>ys. _ \<and> stack_rel ?s _")
proof -
  from r h obtain ys where ys: "xs = h # ys" "chain (ls_next s) (ls_next s h) ys"
    by (auto simp: stack_rel_def chain_Some)
  have nh: "ls_next s h = n" using stack_rel_pc [OF r h(1)] by simp
  have "pc_ok ?s (ls_pc ?s u)" for u
    using r by - (rule pc_ok_mono [of s], auto simp: stack_rel_def)
  then show ?thesis using r ys nh owners_ok_drop [of "pushing \<circ> ls_pc s" _ t]
    by (auto simp: stack_rel_def pushing_upd)
qed

lemma stack_rel_head: "stack_rel s xs \<Longrightarrow> ls_head s = Some h \<Longrightarrow> h \<in> ls_linked s"
  by (auto simp: stack_rel_def chain_Some)

lemma stack_rel_pop_load: "stack_rel s xs \<Longrightarrow> ls_head s = Some h \<Longrightarrow> stack_rel (goto t (PopRead h) s) xs"
  by (simp add: stack_rel_goto stack_rel_head)

lemma stack_rel_pop_read:
  "stack_rel s xs \<Longrightarrow> ls_pc s t = PopRead h \<Longrightarrow> stack_rel (goto t (PopCas h (ls_next s h)) s) xs"
  using stack_rel_pc [of s xs t "PopRead h"] by (simp add: stack_rel_goto)

lemma stack_rel_pop_empty: "stack_rel s xs \<Longrightarrow> ls_head s = None \<Longrightarrow> xs = [] \<and> stack_rel (goto t Idle s) []"
  using stack_rel_goto [of s xs Idle t] by (simp add: stack_rel_def)

lemmas stack_rel_steps = stack_rel_push_call stack_rel_push_set stack_rel_goto stack_rel_pop_load
  stack_rel_pop_read stack_rel_push_cas

lemma stack_silent: "stack_rel s xs \<Longrightarrow> stack_step False s None s' \<Longrightarrow> stack_rel s' xs"
  by (erule stack_stepE) (auto intro: stack_rel_steps)

lemma stack_commit:
  "stack_rel s xs \<Longrightarrow> stack_step False s (Some e) s' \<Longrightarrow> \<exists>ys. stack_spec e xs ys \<and> stack_rel s' ys"
  by (erule stack_stepE) (auto dest: stack_rel_pop_empty stack_rel_pop_cas intro: stack_rel_steps)

interpretation treiber: forward_simulation "stack_step False" stack_spec stack_rel
  by unfold_locales (fact stack_silent, fact stack_commit)


lemma destructor_chain: "chain nxt head xs \<Longrightarrow> destructor nxt head = Some xs"
proof (induction xs arbitrary: head)
  case Nil
  then show ?case by (simp add: destructor.simps)
next
  case (Cons x xs)
  then have "destructor nxt (nxt x) = Some xs" "head = Some x" by simp_all
  then show ?case by (subst destructor.simps) simp
qed

subsection \<open>Scheduled executions\<close>

text \<open>One step of thread \<open>t\<close> chosen by a scheduler: a new call, the next instruction, or a failing
  compare-exchange.\<close>

datatype stack_action = CallPush nat | CallPop | Go | CasFails

fun stack_act :: "bool \<Rightarrow> nat \<times> stack_action \<Rightarrow> lstack \<Rightarrow> (stack_event option \<times> lstack) option" where
  "stack_act reuse (t, a) s =
    (case (a, ls_pc s t) of
       (CallPush n, Idle) \<Rightarrow>
         if n \<notin> ls_handed s \<or> reuse \<and> n \<in> ls_returned s
         then Some (None, goto t (PushLoad n)
                (s\<lparr>ls_handed := insert n (ls_handed s), ls_returned := ls_returned s - {n}\<rparr>))
         else None
     | (CallPop, Idle) \<Rightarrow> Some (None, goto t PopLoad s)
     | (Go, PushLoad n) \<Rightarrow> Some (None, goto t (PushSet n (ls_head s)) s)
     | (Go, PushSet n h) \<Rightarrow> Some (None, goto t (PushCas n h) (s\<lparr>ls_next := (ls_next s)(n := h)\<rparr>))
     | (Go, PushCas n h) \<Rightarrow>
         if ls_head s = h
         then Some (Some (Pushed n), goto t Idle (s\<lparr>ls_head := Some n, ls_linked := insert n (ls_linked s)\<rparr>))
         else Some (None, goto t (PushLoad n) s)
     | (CasFails, PushCas n h) \<Rightarrow> Some (None, goto t (PushLoad n) s)
     | (Go, PopLoad) \<Rightarrow>
         (case ls_head s of None \<Rightarrow> Some (Some (Popped None), goto t Idle s)
          | Some h \<Rightarrow> Some (None, goto t (PopRead h) s))
     | (Go, PopRead h) \<Rightarrow> Some (None, goto t (PopCas h (ls_next s h)) s)
     | (Go, PopCas h n) \<Rightarrow>
         if ls_head s = Some h
         then Some (Some (Popped (Some h)),
                goto t Idle (s\<lparr>ls_head := n, ls_returned := insert h (ls_returned s)\<rparr>))
         else Some (None, goto t PopLoad s)
     | (CasFails, PopCas h n) \<Rightarrow> Some (None, goto t PopLoad s)
     | _ \<Rightarrow> None)"

lemma stack_act_step: "stack_act reuse ta s = Some (l, s') \<Longrightarrow> stack_step reuse s l s'"
  by (cases ta)
    (auto intro: stack_step.intros split: stack_action.splits stack_pc.splits if_splits option.splits)

lemma stack_exec_run: "exec (stack_act reuse) sched s = Some (es, s') \<Longrightarrow> run (stack_step reuse) s es s'"
  by (rule exec_run [where act = "stack_act reuse"]) (rule stack_act_step)

subsection \<open>Properties\<close>

text \<open>
  (C7) Linearizability: if every node is handed to \<open>Push\<close> once, then in every interleaving of any
  number of threads, with any spurious failures, the operations that took effect form a run of
  the sequential stack, in that order; the heap then holds exactly the sequential stack's nodes,
  and the destructor deletes each of them once, top first, and returns.
\<close>

theorem lockfree_stack_linearizable:
  assumes "run (stack_step False) LockFreeStack es s"
  shows "\<exists>xs. spec_run stack_spec [] es xs \<and> distinct xs \<and> destructor (ls_next s) (ls_head s) = Some xs"
  using treiber.run_simulated [OF assms stack_rel_init] destructor_chain by (auto simp: stack_rel_def)

theorem lockfree_stack_linearizable_witness:
  "\<exists>s xs. run (stack_step False) LockFreeStack [Pushed 5, Pushed 4, Popped (Some 4)] s \<and>
     spec_run stack_spec [] [Pushed 5, Pushed 4, Popped (Some 4)] xs \<and>
     destructor (ls_next s) (ls_head s) = Some xs"
proof -
  let ?sched = "[(0, CallPush 4), (1, CallPush 5), (0, Go), (1, Go), (0, Go), (1, Go), (1, Go), (0, Go), (2, CallPop),
    (0, Go), (0, Go), (2, Go), (0, CasFails), (2, Go), (0, Go), (0, Go), (0, Go), (2, Go), (2, Go), (2, Go), (2, Go)]"
  obtain s where "exec (stack_act False) ?sched LockFreeStack = Some ([Pushed 5, Pushed 4, Popped (Some 4)], s)"
    by (simp add: LockFreeStack_def)
  then have "run (stack_step False) LockFreeStack [Pushed 5, Pushed 4, Popped (Some 4)] s"
    by (rule stack_exec_run)
  with lockfree_stack_linearizable [OF this] show ?thesis by blast
qed

text \<open>
  (C25) The once-only condition is needed: when a node may be pushed again after it was popped, a
  thread that read \<open>old_head->next\<close> before can complete its compare-exchange against the recycled
  node (the ABA problem).  In the run exhibited here the operations that took effect leave the
  sequential stack empty, but \<open>head_\<close> points to node 2, which its popper already owns.
\<close>

theorem lockfree_stack_aba:
  "\<exists>es s. run (stack_step True) LockFreeStack es s \<and>
     spec_run stack_spec [] es [] \<and> ls_head s = Some 2 \<and> 2 \<in> ls_returned s"
proof -
  let ?sched = "[(0, CallPush 2), (0, Go), (0, Go), (0, Go), (0, CallPush 1), (0, Go), (0, Go), (0, Go),
    (1, CallPop), (1, Go), (1, Go),
    (0, CallPop), (0, Go), (0, Go), (0, Go), (0, CallPop), (0, Go), (0, Go), (0, Go),
    (0, CallPush 1), (0, Go), (0, Go), (0, Go), (1, Go)]"
  let ?es = "[Pushed 2, Pushed 1, Popped (Some 1), Popped (Some 2), Pushed 1, Popped (Some 1)]"
  obtain s where s: "exec (stack_act True) ?sched LockFreeStack = Some (?es, s)" "ls_head s = Some 2" "2 \<in> ls_returned s"
    by (simp add: LockFreeStack_def)
  have "spec_run stack_spec [] ?es []" by simp
  with stack_exec_run [OF s(1)] s(2,3) show ?thesis by blast
qed

end
