(* ===== verification/Rcu_Ptr.thy ===== *)
theory Rcu_Ptr
  imports Simulation
begin

text \<open>
  The read-copy-update pointer of \<^verbatim>\<open>src/rcu_ptr/rcu_ptr.h\<close> as an interleaving of its atomic
  steps.  Objects live in a heap and are immutable once published (\<open>shared_ptr<const T>\<close>); a
  thread inside \<open>Update\<close> holds the pointer it loaded and its private deep copy.  The functor runs
  on the private copy, so copy and call are one step.  Objects are kept alive by the
  \<open>shared_ptr\<close>s that refer to them, hence addresses are never reused while referenced and
  deallocation is not modelled.
\<close>

subsection \<open>State and steps\<close>

datatype 'v rcu_pc =
    RIdle
  | RUpdLoad "'v \<Rightarrow> 'v"
  | RUpdCopy "'v \<Rightarrow> 'v" "nat option"
  | RUpdCas "'v \<Rightarrow> 'v" "nat option" "nat option"

record 'v rcu =
  rc_sp :: "nat option"
  rc_heap :: "nat \<Rightarrow> 'v option"
  rc_pc :: "nat \<Rightarrow> 'v rcu_pc"

text \<open>The default constructor and the constructor from a shared pointer to an object \<open>x\<close>.\<close>

definition rcu_default :: "'v rcu" where
  "rcu_default = \<lparr> rc_sp = None, rc_heap = (\<lambda>_. None), rc_pc = (\<lambda>_. RIdle) \<rparr>"

definition rcu_ptr :: "'v \<Rightarrow> 'v rcu" where
  "rcu_ptr x = \<lparr> rc_sp = Some 0, rc_heap = [0 \<mapsto> x], rc_pc = (\<lambda>_. RIdle) \<rparr>"

definition deref :: "'v rcu \<Rightarrow> nat option \<Rightarrow> 'v option" where
  "deref s p = Option.bind p (rc_heap s)"

definition valid_ptr :: "'v rcu \<Rightarrow> nat option \<Rightarrow> bool" where
  "valid_ptr s p \<longleftrightarrow> (case p of None \<Rightarrow> True | Some a \<Rightarrow> rc_heap s a \<noteq> None)"

definition at_pc :: "nat \<Rightarrow> 'v rcu_pc \<Rightarrow> 'v rcu \<Rightarrow> 'v rcu" where
  "at_pc t p s = s\<lparr>rc_pc := (rc_pc s)(t := p)\<rparr>"

text \<open>Events carry the values observed: what \<open>Load\<close> returned, what \<open>Store\<close> published, which functor
  an \<open>Update\<close> applied.\<close>

datatype 'v rcu_event = Loaded "'v option" | Stored "'v option" | Updated "'v \<Rightarrow> 'v"

inductive rcu_step :: "'v rcu \<Rightarrow> 'v rcu_event option \<Rightarrow> 'v rcu \<Rightarrow> bool" where
  alloc: "rc_heap s p = None \<Longrightarrow> rcu_step s None (s\<lparr>rc_heap := (rc_heap s)(p \<mapsto> x)\<rparr>)"
| Load: "rc_pc s t = RIdle \<Longrightarrow> rcu_step s (Some (Loaded (deref s (rc_sp s)))) s"
| Store: "rc_pc s t = RIdle \<Longrightarrow> valid_ptr s r \<Longrightarrow> rcu_step s (Some (Stored (deref s r))) (s\<lparr>rc_sp := r\<rparr>)"
| Update_call: "rc_pc s t = RIdle \<Longrightarrow> rcu_step s None (at_pc t (RUpdLoad f) s)"
| Update_load: "rc_pc s t = RUpdLoad f \<Longrightarrow> rcu_step s None (at_pc t (RUpdCopy f (rc_sp s)) s)"
| Update_copy: "rc_pc s t = RUpdCopy f (Some q) \<Longrightarrow> rc_heap s q = Some x \<Longrightarrow> rc_heap s p = None \<Longrightarrow>
    rcu_step s None (at_pc t (RUpdCas f (Some q) (Some p)) (s\<lparr>rc_heap := (rc_heap s)(p \<mapsto> f x)\<rparr>))"
| Update_null: "rc_pc s t = RUpdCopy f None \<Longrightarrow> rcu_step s None (at_pc t (RUpdCas f None None) s)"
| Update_cas: "rc_pc s t = RUpdCas f c d \<Longrightarrow> rc_sp s = c \<Longrightarrow>
    rcu_step s (Some (Updated f)) (at_pc t RIdle (s\<lparr>rc_sp := d\<rparr>))"
| Update_retry: "rc_pc s t = RUpdCas f c d \<Longrightarrow> rc_sp s \<noteq> c \<Longrightarrow>
    rcu_step s None (at_pc t (RUpdCopy f (rc_sp s)) s)"

inductive_cases rcu_stepE: "rcu_step s l s'"

subsection \<open>The sequential register and the simulation\<close>

fun rcu_spec :: "'v rcu_event \<Rightarrow> 'v option \<Rightarrow> 'v option \<Rightarrow> bool" where
  "rcu_spec (Loaded r) v w \<longleftrightarrow> r = v \<and> w = v"
| "rcu_spec (Stored r) v w \<longleftrightarrow> w = r"
| "rcu_spec (Updated f) v w \<longleftrightarrow> w = map_option f v"

fun rcu_pc_ok :: "'v rcu \<Rightarrow> 'v rcu_pc \<Rightarrow> bool" where
  "rcu_pc_ok s (RUpdCopy f c) \<longleftrightarrow> valid_ptr s c"
| "rcu_pc_ok s (RUpdCas f c d) \<longleftrightarrow> valid_ptr s c \<and> valid_ptr s d \<and> deref s d = map_option f (deref s c)"
| "rcu_pc_ok s _ \<longleftrightarrow> True"

definition rcu_rel :: "'v rcu \<Rightarrow> 'v option \<Rightarrow> bool" where
  "rcu_rel s v \<longleftrightarrow> valid_ptr s (rc_sp s) \<and> deref s (rc_sp s) = v \<and> (\<forall>t. rcu_pc_ok s (rc_pc s t))"

lemma deref_alloc:
  "valid_ptr s p \<Longrightarrow> rc_heap s q = None \<Longrightarrow> deref (s\<lparr>rc_heap := (rc_heap s)(q \<mapsto> x)\<rparr>) p = deref s p"
  by (cases p) (auto simp: deref_def valid_ptr_def)

lemma valid_alloc: "valid_ptr s p \<Longrightarrow> valid_ptr (s\<lparr>rc_heap := (rc_heap s)(q \<mapsto> x)\<rparr>) p"
  by (auto simp: valid_ptr_def split: option.splits)

lemma rcu_rel_alloc:
  assumes "rcu_rel s v" "rc_heap s q = None"
  shows "rcu_rel (s\<lparr>rc_heap := (rc_heap s)(q \<mapsto> x)\<rparr>) v"
proof -
  have "rcu_pc_ok s p \<Longrightarrow> rcu_pc_ok (s\<lparr>rc_heap := (rc_heap s)(q \<mapsto> x)\<rparr>) p" for p
    using assms(2) by (cases p) (auto simp: deref_alloc valid_alloc)
  with assms show ?thesis by (auto simp: rcu_rel_def deref_alloc valid_alloc)
qed

lemma at_pc_simps [simp]:
  "rc_sp (at_pc t p s) = rc_sp s" "rc_heap (at_pc t p s) = rc_heap s" "rc_pc (at_pc t p s) = (rc_pc s)(t := p)"
  "deref (at_pc t p s) = deref s" "valid_ptr (at_pc t p s) = valid_ptr s"
  by (auto simp: at_pc_def deref_def [abs_def] valid_ptr_def [abs_def])

lemma sp_upd_simps [simp]: "deref (s\<lparr>rc_sp := r\<rparr>) = deref s" "valid_ptr (s\<lparr>rc_sp := r\<rparr>) = valid_ptr s"
  by (auto simp: deref_def [abs_def] valid_ptr_def [abs_def])

lemma rcu_pc_ok_cong: "deref s' = deref s \<Longrightarrow> valid_ptr s' = valid_ptr s \<Longrightarrow> rcu_pc_ok s' p = rcu_pc_ok s p"
  by (cases p) auto

lemma rcu_pc_ok_simps [simp]:
  "rcu_pc_ok (at_pc t q s) p = rcu_pc_ok s p" "rcu_pc_ok (s\<lparr>rc_sp := r\<rparr>) p = rcu_pc_ok s p"
  by (rule rcu_pc_ok_cong; simp)+

lemma rcu_rel_at_pc: "rcu_rel s v \<Longrightarrow> rcu_pc_ok s p \<Longrightarrow> rcu_rel (at_pc t p s) v"
  by (simp add: rcu_rel_def)

lemma rcu_rel_pc: "rcu_rel s v \<Longrightarrow> rc_pc s t = p \<Longrightarrow> rcu_pc_ok s p"
  by (auto simp: rcu_rel_def)

lemma rcu_rel_sp: "rcu_rel s v \<Longrightarrow> valid_ptr s (rc_sp s) \<and> deref s (rc_sp s) = v"
  by (simp add: rcu_rel_def)

lemma rcu_rel_set_sp: "rcu_rel s v \<Longrightarrow> valid_ptr s r \<Longrightarrow> rcu_rel (s\<lparr>rc_sp := r\<rparr>) (deref s r)"
  by (simp add: rcu_rel_def)

lemma rcu_rel_copy:
  assumes r: "rcu_rel s v" and q: "rc_heap s q = Some x" and p: "rc_heap s p = None"
  shows "rcu_rel (at_pc t (RUpdCas f (Some q) (Some p)) (s\<lparr>rc_heap := (rc_heap s)(p \<mapsto> f x)\<rparr>)) v"
  using q p by (intro rcu_rel_at_pc rcu_rel_alloc r) (auto simp: deref_def valid_ptr_def)

lemma rcu_rel_reload: "rcu_rel s v \<Longrightarrow> rcu_rel (at_pc t (RUpdCopy f (rc_sp s)) s) v"
  by (rule rcu_rel_at_pc) (auto dest: rcu_rel_sp)

lemma rcu_rel_cas:
  assumes r: "rcu_rel s v" and t: "rc_pc s t = RUpdCas f (rc_sp s) d"
  shows "rcu_rel (at_pc t RIdle (s\<lparr>rc_sp := d\<rparr>)) (map_option f v)"
proof -
  have d: "valid_ptr s d" "deref s d = map_option f v" using rcu_rel_pc [OF r t] rcu_rel_sp [OF r] by auto
  with rcu_rel_set_sp [OF r d(1)] show ?thesis by (simp add: rcu_rel_at_pc)
qed

lemma rcu_silent: "rcu_rel s v \<Longrightarrow> rcu_step s None s' \<Longrightarrow> rcu_rel s' v"
  by (erule rcu_stepE)
    (auto intro: rcu_rel_alloc rcu_rel_at_pc rcu_rel_copy rcu_rel_reload simp: valid_ptr_def deref_def)

lemma rcu_commit:
  "rcu_rel s v \<Longrightarrow> rcu_step s (Some e) s' \<Longrightarrow> \<exists>w. rcu_spec e v w \<and> rcu_rel s' w"
  by (erule rcu_stepE) (auto dest: rcu_rel_sp intro: rcu_rel_set_sp rcu_rel_cas)

interpretation rcu: forward_simulation rcu_step rcu_spec rcu_rel
  by unfold_locales (fact rcu_silent, fact rcu_commit)

lemma rcu_rel_init: "rcu_rel (rcu_ptr x) (Some x)" "rcu_rel rcu_default None"
  by (simp_all add: rcu_rel_def rcu_ptr_def rcu_default_def valid_ptr_def deref_def)

lemma spec_run_updates_None: "spec_run rcu_spec None (map Updated fs) w \<Longrightarrow> w = None"
  by (induction fs) auto

text \<open>A scheduler's choices: a call, or the next instruction of a thread, with the address at which
  it allocates if it does.\<close>

datatype 'v rcu_action = CallLoad | CallStore "nat option" | CallUpdate "'v \<Rightarrow> 'v" | Next nat

fun rcu_act :: "nat \<times> 'v rcu_action \<Rightarrow> 'v rcu \<Rightarrow> ('v rcu_event option \<times> 'v rcu) option" where
  "rcu_act (t, a) s =
    (case (a, rc_pc s t) of
       (CallLoad, RIdle) \<Rightarrow> Some (Some (Loaded (deref s (rc_sp s))), s)
     | (CallStore r, RIdle) \<Rightarrow>
         if valid_ptr s r then Some (Some (Stored (deref s r)), s\<lparr>rc_sp := r\<rparr>) else None
     | (CallUpdate f, RIdle) \<Rightarrow> Some (None, at_pc t (RUpdLoad f) s)
     | (Next p, RUpdLoad f) \<Rightarrow> Some (None, at_pc t (RUpdCopy f (rc_sp s)) s)
     | (Next p, RUpdCopy f None) \<Rightarrow> Some (None, at_pc t (RUpdCas f None None) s)
     | (Next p, RUpdCopy f (Some q)) \<Rightarrow>
         (case (rc_heap s q, rc_heap s p) of
            (Some x, None) \<Rightarrow>
              Some (None, at_pc t (RUpdCas f (Some q) (Some p)) (s\<lparr>rc_heap := (rc_heap s)(p \<mapsto> f x)\<rparr>))
          | _ \<Rightarrow> None)
     | (Next p, RUpdCas f c d) \<Rightarrow>
         if rc_sp s = c then Some (Some (Updated f), at_pc t RIdle (s\<lparr>rc_sp := d\<rparr>))
         else Some (None, at_pc t (RUpdCopy f (rc_sp s)) s)
     | _ \<Rightarrow> None)"

lemma rcu_act_step: "rcu_act ta s = Some (l, s') \<Longrightarrow> rcu_step s l s'"
  by (cases ta) (auto intro: rcu_step.intros
      split: rcu_action.splits rcu_pc.splits if_splits option.splits)

lemma rcu_exec_run: "exec rcu_act sched s = Some (es, s') \<Longrightarrow> run rcu_step s es s'"
  by (rule exec_run [where act = rcu_act]) (rule rcu_act_step)

subsection \<open>Properties\<close>

text \<open>
  (C9) No update is lost: in every interleaving of loads, stores and updates by any number of
  threads, the operations that took effect form a run of a sequential register, in which each
  \<open>Update\<close> applies its functor to the value current at that moment and each \<open>Load\<close> returns the
  current value; the pointer finally refers to the value of that run.
\<close>

theorem rcu_ptr_linearizable:
  assumes "run rcu_step (rcu_ptr x) es s"
  shows "\<exists>v. spec_run rcu_spec (Some x) es v \<and> deref s (rc_sp s) = v"
  using rcu.run_simulated [OF assms rcu_rel_init(1)] by (auto simp: rcu_rel_def)

theorem rcu_ptr_linearizable_witness:
  "\<exists>f g s. run rcu_step (rcu_ptr (1 :: int)) [Updated g, Updated f, Loaded (Some 11)] s \<and>
     f = (\<lambda>x. x + 1) \<and> g = (\<lambda>x. x * 10) \<and> deref s (rc_sp s) = Some 11"
proof -
  let ?f = "\<lambda>x :: int. x + 1" and ?g = "\<lambda>x :: int. x * 10"
  let ?sched = "[(0, CallUpdate ?f), (1, CallUpdate ?g), (0, Next 0), (1, Next 0), (0, Next 1), (1, Next 2),
    (1, Next 0), (0, Next 0), (0, Next 3), (0, Next 0), (2, CallLoad)]"
  obtain s where "exec rcu_act ?sched (rcu_ptr 1) = Some ([Updated ?g, Updated ?f, Loaded (Some 11)], s)"
    by (simp add: rcu_ptr_def deref_def)
  then have r: "run rcu_step (rcu_ptr 1) [Updated ?g, Updated ?f, Loaded (Some 11)] s"
    by (rule rcu_exec_run)
  with rcu_ptr_linearizable [OF r] show ?thesis by auto
qed

text \<open>
  (C40) On a default-constructed \<open>rcu_ptr\<close> updates alone have no effect: the functor only ever
  receives the null pointer and the wrapped pointer stays null, until a \<open>Store\<close>.
\<close>

theorem rcu_ptr_empty_updates:
  assumes "run rcu_step rcu_default (map Updated fs) s"
  shows "rc_sp s = None"
proof -
  from rcu.run_simulated [OF assms rcu_rel_init(2)] obtain v
    where "spec_run rcu_spec None (map Updated fs) v" "rcu_rel s v" by blast
  then show ?thesis using spec_run_updates_None [of fs v]
    by (cases "rc_sp s") (auto simp: rcu_rel_def valid_ptr_def deref_def)
qed

theorem rcu_ptr_empty_updates_witness:
  "\<exists>s. run rcu_step rcu_default (map Updated [\<lambda>x :: int. x + 1]) s \<and> rc_sp s = None"
proof -
  let ?sched = "[(0, CallUpdate (\<lambda>x :: int. x + 1)), (0, Next 0), (0, Next 0), (0, Next 0)]"
  obtain s where "exec rcu_act ?sched rcu_default = Some (map Updated [\<lambda>x. x + 1], s)"
    by (simp add: rcu_default_def)
  then have r: "run rcu_step rcu_default (map Updated [\<lambda>x :: int. x + 1]) s" by (rule rcu_exec_run)
  from rcu_ptr_empty_updates [OF r] r show ?thesis by blast
qed

end
