(* ===== verification/Double_Buffer.thy ===== *)
theory Double_Buffer
  imports Simulation
begin

text \<open>
  The double buffer of \<^verbatim>\<open>src/double_buffer/double_buffer.h\<close>.  \<open>db_buf\<close> holds the two buffers, with
  \<^const>\<open>None\<close> while an updater is in the middle of changing one; \<open>db_refs\<close> holds, per buffer, the
  shared pointers handed out to readers and not yet released, each with the contents seen when
  it was taken.  \<open>Load\<close> is two steps in the code, the read of \<open>read_idx_\<close> and the copy of the shared
  pointer.  The writer holds \<open>write_mtx_\<close> for a whole \<open>Update\<close>, so there is one writer at a time;
  its program points are those of \<open>Update\<close> with \<open>monopolizer_writer_buffer\<close> inlined.  An updater is
  a function of the buffer's contents; it is applied once to each buffer.
\<close>

subsection \<open>State and steps\<close>

datatype 'v writer_pc =
    WIdle
  | WWait1 "'v \<Rightarrow> 'v"
  | WWrite1 "'v \<Rightarrow> 'v" 'v
  | WSwap "'v \<Rightarrow> 'v"
  | WWait2 "'v \<Rightarrow> 'v"
  | WWrite2 "'v \<Rightarrow> 'v" 'v

datatype reader_pc = LIdle | LGotIdx nat

record 'v dbuf =
  db_buf :: "nat \<Rightarrow> 'v option"
  db_read :: nat
  db_refs :: "nat \<Rightarrow> (nat \<times> 'v option) list"
  db_readers :: "nat \<Rightarrow> reader_pc"
  db_writer :: "'v writer_pc"

definition DoubleBuffer :: "'v \<Rightarrow> 'v dbuf" where
  "DoubleBuffer data = \<lparr> db_buf = (\<lambda>_. Some data), db_read = 0, db_refs = (\<lambda>_. []),
                         db_readers = (\<lambda>_. LIdle), db_writer = WIdle \<rparr>"

text \<open>The index of the write buffer, and the reference count its loop waits on: the array's own
  reference and the readers'.  (The writer's own reference is to the other buffer while it
  waits.)\<close>

definition write_idx :: "'v dbuf \<Rightarrow> nat" where
  "write_idx s = 1 - db_read s"

definition use_count :: "'v dbuf \<Rightarrow> nat \<Rightarrow> nat" where
  "use_count s i = 1 + length (db_refs s i)"

definition take_ref :: "nat \<Rightarrow> nat \<Rightarrow> 'v dbuf \<Rightarrow> 'v dbuf" where
  "take_ref r i s = s\<lparr>db_refs := (db_refs s)(i := (r, db_buf s i) # db_refs s i),
                      db_readers := (db_readers s)(r := LIdle)\<rparr>"

datatype 'v db_event = LoadE "'v option" | UpdateE "'v \<Rightarrow> 'v"

text \<open>
  \<open>preempt\<close> says whether a reader can be interrupted between the two steps of \<open>Load\<close>, as the code
  allows; without it the two steps happen together.
\<close>

inductive db_step :: "bool \<Rightarrow> 'v dbuf \<Rightarrow> 'v db_event option \<Rightarrow> 'v dbuf \<Rightarrow> bool" for preempt :: bool where
  load: "db_readers s r = LIdle \<Longrightarrow>
    db_step preempt s (Some (LoadE (db_buf s (db_read s)))) (take_ref r (db_read s) s)"
| load_idx: "preempt \<Longrightarrow> db_readers s r = LIdle \<Longrightarrow>
    db_step preempt s None (s\<lparr>db_readers := (db_readers s)(r := LGotIdx (db_read s))\<rparr>)"
| load_copy: "db_readers s r = LGotIdx i \<Longrightarrow>
    db_step preempt s (Some (LoadE (db_buf s i))) (take_ref r i s)"
| release: "x \<in> set (db_refs s i) \<Longrightarrow>
    db_step preempt s None (s\<lparr>db_refs := (db_refs s)(i := remove1 x (db_refs s i))\<rparr>)"
| upd_lock: "db_writer s = WIdle \<Longrightarrow> db_step preempt s None (s\<lparr>db_writer := WWait1 f\<rparr>)"
| upd_begin1: "db_writer s = WWait1 f \<Longrightarrow> use_count s (write_idx s) = 1 \<Longrightarrow> db_buf s (write_idx s) = Some x \<Longrightarrow>
    db_step preempt s None (s\<lparr>db_buf := (db_buf s)(write_idx s := None), db_writer := WWrite1 f x\<rparr>)"
| upd_end1: "db_writer s = WWrite1 f x \<Longrightarrow>
    db_step preempt s None (s\<lparr>db_buf := (db_buf s)(write_idx s := Some (f x)), db_writer := WSwap f\<rparr>)"
| swap_buffer: "db_writer s = WSwap f \<Longrightarrow>
    db_step preempt s (Some (UpdateE f)) (s\<lparr>db_read := 1 - db_read s, db_writer := WWait2 f\<rparr>)"
| upd_begin2: "db_writer s = WWait2 f \<Longrightarrow> use_count s (write_idx s) = 1 \<Longrightarrow> db_buf s (write_idx s) = Some x \<Longrightarrow>
    db_step preempt s None (s\<lparr>db_buf := (db_buf s)(write_idx s := None), db_writer := WWrite2 f x\<rparr>)"
| upd_end2: "db_writer s = WWrite2 f x \<Longrightarrow>
    db_step preempt s None (s\<lparr>db_buf := (db_buf s)(write_idx s := Some (f x)), db_writer := WIdle\<rparr>)"

inductive_cases db_stepE: "db_step preempt s l s'"

text \<open>\<open>Reset\<close> is \<open>Update\<close> with an updater that overwrites the contents.\<close>

definition Reset_updater :: "'v \<Rightarrow> 'v \<Rightarrow> 'v" where
  "Reset_updater data = (\<lambda>_. data)"

subsection \<open>The sequential register and the simulation\<close>

fun db_spec :: "'v db_event \<Rightarrow> 'v \<Rightarrow> 'v \<Rightarrow> bool" where
  "db_spec (LoadE w) v v' \<longleftrightarrow> w = Some v \<and> v' = v"
| "db_spec (UpdateE f) v v' \<longleftrightarrow> v' = f v"

text \<open>What the buffer that readers do not use holds, by the writer's progress.\<close>

fun other_ok :: "'v writer_pc \<Rightarrow> 'v \<Rightarrow> 'v option \<Rightarrow> bool \<Rightarrow> bool" where
  "other_ok WIdle v b unread \<longleftrightarrow> b = Some v"
| "other_ok (WWait1 f) v b unread \<longleftrightarrow> b = Some v"
| "other_ok (WWrite1 f x) v b unread \<longleftrightarrow> b = None \<and> x = v \<and> unread"
| "other_ok (WSwap f) v b unread \<longleftrightarrow> b = Some (f v) \<and> unread"
| "other_ok (WWait2 f) v b unread \<longleftrightarrow> (\<exists>u. b = Some u \<and> v = f u)"
| "other_ok (WWrite2 f x) v b unread \<longleftrightarrow> b = None \<and> v = f x \<and> unread"

text \<open>Every handle still shows the contents it was taken with, and none shows a buffer being changed.\<close>

definition handle_ok :: "(nat \<Rightarrow> 'v option) \<Rightarrow> nat \<Rightarrow> nat \<times> 'v option \<Rightarrow> bool" where
  "handle_ok buf i h \<longleftrightarrow> i \<le> 1 \<and> buf i \<noteq> None \<and> snd h = buf i"

definition refs_ok :: "(nat \<Rightarrow> 'v option) \<Rightarrow> (nat \<Rightarrow> (nat \<times> 'v option) list) \<Rightarrow> bool" where
  "refs_ok buf refs \<longleftrightarrow> (\<forall>i. \<forall>h \<in> set (refs i). handle_ok buf i h)"

definition db_rel :: "'v dbuf \<Rightarrow> 'v \<Rightarrow> bool" where
  "db_rel s v \<longleftrightarrow> db_read s \<le> 1 \<and> db_buf s (db_read s) = Some v \<and>
     other_ok (db_writer s) v (db_buf s (write_idx s)) (db_refs s (write_idx s) = []) \<and>
     refs_ok (db_buf s) (db_refs s) \<and> (\<forall>r. db_readers s r = LIdle)"

lemma refs_ok_remove: "refs_ok buf refs \<Longrightarrow> refs_ok buf (refs(i := remove1 x (refs i)))"
  using set_remove1_subset [of x "refs i"] by (auto simp: refs_ok_def)

lemma refs_ok_add: "refs_ok buf refs \<Longrightarrow> i \<le> 1 \<Longrightarrow> buf i \<noteq> None \<Longrightarrow> refs_ok buf (refs(i := (r, buf i) # refs i))"
  by (auto simp: refs_ok_def handle_ok_def [of buf i "(r, buf i)"])

lemma handle_ok_write [simp]: "j \<noteq> i \<Longrightarrow> handle_ok (buf(i := w)) j h \<longleftrightarrow> handle_ok buf j h"
  by (simp add: handle_ok_def)

lemma refs_ok_write: "refs_ok buf refs \<Longrightarrow> refs i = [] \<Longrightarrow> refs_ok (buf(i := w)) refs"
  unfolding refs_ok_def by (metis empty_iff handle_ok_write list.set(1))

lemma other_ok_unread: "other_ok p v b u \<Longrightarrow> (u \<Longrightarrow> u') \<Longrightarrow> other_ok p v b u'"
  by (cases p) auto

lemma write_idx_simps [simp]:
  "write_idx (s\<lparr>db_writer := p\<rparr>) = write_idx s" "write_idx (s\<lparr>db_buf := b\<rparr>) = write_idx s"
  "write_idx (s\<lparr>db_refs := q\<rparr>) = write_idx s" "write_idx (s\<lparr>db_readers := l\<rparr>) = write_idx s"
  by (simp_all add: write_idx_def)

lemma write_idx_neq [simp]: "db_read s \<le> 1 \<Longrightarrow> write_idx s \<noteq> db_read s" "db_read s \<le> 1 \<Longrightarrow> db_read s \<noteq> write_idx s"
  by (auto simp: write_idx_def dest!: le_Suc_eq [THEN iffD1])

lemma db_rel_take_ref: "db_rel s v \<Longrightarrow> db_rel (take_ref r (db_read s) s) v"
  using refs_ok_add [of "db_buf s" "db_refs s" "db_read s" r] by (simp add: db_rel_def take_ref_def)

lemma db_rel_release:
  assumes "db_rel s v"
  shows "db_rel (s\<lparr>db_refs := (db_refs s)(i := remove1 x (db_refs s i))\<rparr>) v"
  using assms other_ok_unread [of "db_writer s" v _ "db_refs s (write_idx s) = []"]
  by (auto simp: db_rel_def refs_ok_remove)

lemma db_rel_write:
  assumes "db_rel s v" "other_ok p v w True" "db_refs s (write_idx s) = []"
  shows "db_rel (s\<lparr>db_buf := (db_buf s)(write_idx s := w), db_writer := p\<rparr>) v"
  using assms by (simp add: db_rel_def refs_ok_write)

lemma db_rel_other:
  "db_rel s v \<Longrightarrow> other_ok (db_writer s) v (db_buf s (write_idx s)) (db_refs s (write_idx s) = [])"
  by (simp add: db_rel_def)

lemma db_silent:
  assumes r: "db_rel s v" and st: "db_step False s None s'"
  shows "db_rel s' v"
  using st db_rel_other [OF r]
proof (cases rule: db_step.cases)
  case (upd_lock f)
  with r db_rel_other [OF r] show ?thesis by (simp add: db_rel_def)
qed (use r in \<open>auto simp: db_rel_release use_count_def intro!: db_rel_write\<close>)

lemma db_commit:
  assumes r: "db_rel s v" and st: "db_step False s (Some e) s'"
  shows "\<exists>w. db_spec e v w \<and> db_rel s' w"
  using st
proof (cases rule: db_step.cases)
  case (load r')
  with r db_rel_take_ref [OF r] show ?thesis by (auto simp: db_rel_def)
next
  case (load_copy r' i)
  with r show ?thesis by (simp add: db_rel_def)
next
  case (swap_buffer f)
  with r db_rel_other [OF r] have "db_rel s' (f v)"
    by (auto simp: db_rel_def write_idx_def)
  with swap_buffer show ?thesis by simp
qed

interpretation dbuffer: forward_simulation "db_step False" db_spec db_rel
  by unfold_locales (fact db_silent, fact db_commit)

lemma db_rel_init: "db_rel (DoubleBuffer v) v"
  by (simp add: db_rel_def DoubleBuffer_def refs_ok_def)

subsection \<open>Scheduled executions\<close>

datatype 'v db_action = ALoad nat | ALoadIdx nat | ALoadCopy nat | ARelease nat | ALock "'v \<Rightarrow> 'v" | AWriter

fun db_act :: "bool \<Rightarrow> 'v db_action \<Rightarrow> 'v dbuf \<Rightarrow> ('v db_event option \<times> 'v dbuf) option" where
  "db_act preempt (ALoad r) s = (case db_readers s r of
     LIdle \<Rightarrow> Some (Some (LoadE (db_buf s (db_read s))), take_ref r (db_read s) s) | _ \<Rightarrow> None)"
| "db_act preempt (ALoadIdx r) s = (case db_readers s r of
     LIdle \<Rightarrow> if preempt then Some (None, s\<lparr>db_readers := (db_readers s)(r := LGotIdx (db_read s))\<rparr>) else None
   | _ \<Rightarrow> None)"
| "db_act preempt (ALoadCopy r) s = (case db_readers s r of
     LGotIdx i \<Rightarrow> Some (Some (LoadE (db_buf s i)), take_ref r i s) | _ \<Rightarrow> None)"
| "db_act preempt (ARelease i) s = (case db_refs s i of
     [] \<Rightarrow> None | x # xs \<Rightarrow> Some (None, s\<lparr>db_refs := (db_refs s)(i := remove1 x (db_refs s i))\<rparr>))"
| "db_act preempt (ALock f) s = (case db_writer s of
     WIdle \<Rightarrow> Some (None, s\<lparr>db_writer := WWait1 f\<rparr>) | _ \<Rightarrow> None)"
| "db_act preempt AWriter s = (case db_writer s of
     WIdle \<Rightarrow> None
   | WWait1 f \<Rightarrow> (case db_buf s (write_idx s) of
       Some x \<Rightarrow> if use_count s (write_idx s) = 1
         then Some (None, s\<lparr>db_buf := (db_buf s)(write_idx s := None), db_writer := WWrite1 f x\<rparr>) else None
     | None \<Rightarrow> None)
   | WWrite1 f x \<Rightarrow> Some (None, s\<lparr>db_buf := (db_buf s)(write_idx s := Some (f x)), db_writer := WSwap f\<rparr>)
   | WSwap f \<Rightarrow> Some (Some (UpdateE f), s\<lparr>db_read := 1 - db_read s, db_writer := WWait2 f\<rparr>)
   | WWait2 f \<Rightarrow> (case db_buf s (write_idx s) of
       Some x \<Rightarrow> if use_count s (write_idx s) = 1
         then Some (None, s\<lparr>db_buf := (db_buf s)(write_idx s := None), db_writer := WWrite2 f x\<rparr>) else None
     | None \<Rightarrow> None)
   | WWrite2 f x \<Rightarrow> Some (None, s\<lparr>db_buf := (db_buf s)(write_idx s := Some (f x)), db_writer := WIdle\<rparr>))"

lemma release_hd:
  "db_refs s i = x # xs \<Longrightarrow> db_step preempt s None (s\<lparr>db_refs := (db_refs s)(i := xs)\<rparr>)"
  using release [of x s i preempt] by simp

lemma db_act_step: "db_act preempt a s = Some (l, s') \<Longrightarrow> db_step preempt s l s'"
  by (cases a) (auto intro: db_step.intros release_hd simp del: One_nat_def
      split: reader_pc.splits writer_pc.splits list.splits option.splits if_splits)

lemma db_exec_run: "exec (db_act preempt) sched s = Some (es, s') \<Longrightarrow> run (db_step preempt) s es s'"
  by (rule exec_run [where act = "db_act preempt"]) (rule db_act_step)

subsection \<open>Properties\<close>

text \<open>
  (C11) If no reader is interrupted inside \<open>Load\<close>, the double buffer is a register: in every
  interleaving the loads and updates that took effect form a sequential run, each \<open>Load\<close> returning
  the latest update's value; every handle a reader still holds shows exactly the contents it
  was taken with (the writer never touches it), and between updates both buffers agree.
\<close>

theorem double_buffer_linearizable:
  assumes "run (db_step False) (DoubleBuffer v) es s"
  shows "\<exists>w. spec_run db_spec v es w \<and> refs_ok (db_buf s) (db_refs s) \<and> db_buf s (db_read s) = Some w \<and>
           (db_writer s = WIdle \<longrightarrow> db_buf s (write_idx s) = Some w)"
  using dbuffer.run_simulated [OF assms db_rel_init] by (force simp: db_rel_def)

theorem double_buffer_linearizable_witness:
  "\<exists>s f. run (db_step False) (DoubleBuffer (3 :: int)) [LoadE (Some 3), UpdateE f, LoadE (Some 4)] s \<and>
     refs_ok (db_buf s) (db_refs s) \<and> db_writer s = WIdle \<and> db_buf s (write_idx s) = Some 4"
proof -
  let ?f = "\<lambda>x :: int. x + 1"
  let ?sched = "[ALoad 0, ALock ?f, AWriter, AWriter, AWriter, ALoad 1, ARelease 0, AWriter, AWriter]"
  obtain s where s: "exec (db_act False) ?sched (DoubleBuffer 3) = Some ([LoadE (Some 3), UpdateE ?f, LoadE (Some 4)], s)"
    "db_writer s = WIdle" "db_buf s (db_read s) = Some 4"
    by (simp add: DoubleBuffer_def take_ref_def write_idx_def use_count_def)
  then have r: "run (db_step False) (DoubleBuffer 3) [LoadE (Some 3), UpdateE ?f, LoadE (Some 4)] s"
    by (intro db_exec_run)
  from double_buffer_linearizable [OF r] r s show ?thesis by auto
qed

text \<open>
  (C26) With the interruption the code allows, \<open>Load\<close> is unsafe: a reader that has read \<open>read_idx_\<close> but
  not yet copied the shared pointer is invisible to \<open>use_count\<close>, and can obtain the buffer the
  writer is changing at that moment.
\<close>

theorem double_buffer_load_race:
  "\<exists>s es f. run (db_step True) (DoubleBuffer (3 :: int)) es s \<and> db_writer s = WWrite2 f 3 \<and>
     db_refs s (write_idx s) = [(0, None)] \<and> \<not> refs_ok (db_buf s) (db_refs s)"
proof -
  let ?f = "\<lambda>x :: int. x + 1"
  let ?sched = "[ALoadIdx 0, ALock ?f, AWriter, AWriter, AWriter, AWriter, ALoadCopy 0]"
  obtain s es where s: "exec (db_act True) ?sched (DoubleBuffer 3) = Some (es, s)" "db_writer s = WWrite2 ?f 3"
    "db_refs s (write_idx s) = [(0, None)]"
    by (simp add: DoubleBuffer_def take_ref_def write_idx_def use_count_def)
  then have "(0, None) \<in> set (db_refs s (write_idx s))" by simp
  then have "\<not> refs_ok (db_buf s) (db_refs s)" by (force simp: refs_ok_def handle_ok_def)
  with s db_exec_run [OF s(1)] show ?thesis by blast
qed

end
