(* ===== verification/Thread_Pool.thy ===== *)
theory Thread_Pool
  imports Simulation "HOL-Library.Multiset"
begin

text \<open>
  The thread pool of \<^verbatim>\<open>src/threadpool/threadpool.h\<close>.  Critical sections under \<open>queue_mutex_\<close> are
  single steps.  A worker is about to take the mutex and test the wait predicate (\<open>Checking\<close>),
  asleep in \<open>condition_.wait\<close> (\<open>Sleeping\<close>), running a task, or has returned.  \<open>tp_notify\<close> counts the
  \<open>Enqueue\<close> calls between unlocking the mutex and \<open>notify_one\<close>, \<open>tp_notify_all\<close> says the destructor
  is between setting \<open>stop_\<close> and \<open>notify_all\<close>.  \<open>tp_started\<close> and \<open>tp_finished\<close> are histories.  A task is
  an arbitrary value; the packaged task inside keeps its exceptions from the worker.
\<close>

subsection \<open>State and steps\<close>

datatype 'a worker = Checking | Sleeping | Running 'a | Exited

record 'a pool =
  tp_workers :: "'a worker list"
  tp_tasks :: "'a list"
  tp_stop :: bool
  tp_notify :: nat
  tp_notify_all :: bool
  tp_started :: "'a list"
  tp_finished :: "'a list"

definition ThreadPool :: "nat \<Rightarrow> 'a pool" where
  "ThreadPool threads = \<lparr> tp_workers = replicate threads Checking, tp_tasks = [], tp_stop = False,
     tp_notify = 0, tp_notify_all = False, tp_started = [], tp_finished = [] \<rparr>"

definition set_worker :: "nat \<Rightarrow> 'a worker \<Rightarrow> 'a pool \<Rightarrow> 'a pool" where
  "set_worker w p s = s\<lparr>tp_workers := (tp_workers s)[w := p]\<rparr>"

text \<open>A worker's critical section: wait until the predicate holds, then return or take a task.\<close>

definition worker_check :: "nat \<Rightarrow> 'a pool \<Rightarrow> 'a pool" where
  "worker_check w s =
     (if \<not> (tp_stop s \<or> tp_tasks s \<noteq> []) then set_worker w Sleeping s
      else if tp_stop s \<and> tp_tasks s = [] then set_worker w Exited s
      else set_worker w (Running (hd (tp_tasks s)))
             (s\<lparr>tp_tasks := tl (tp_tasks s), tp_started := tp_started s @ [hd (tp_tasks s)]\<rparr>))"

text \<open>
  \<open>Enqueue\<close>'s critical section: it throws on a stopped pool (\<^const>\<open>Inl\<close>, the state unchanged),
  otherwise the task is queued and a notification is due.
\<close>

definition pool_Enqueue :: "'a \<Rightarrow> 'a pool \<Rightarrow> string + 'a pool" where
  "pool_Enqueue task s =
     (if tp_stop s then Inl ''enqueue on stopped ThreadPool''
      else Inr (s\<lparr>tp_tasks := tp_tasks s @ [task], tp_notify := tp_notify s + 1\<rparr>))"

text \<open>\<open>notify_one\<close> wakes some sleeping worker if there is one; \<open>notify_all\<close> wakes all.\<close>

definition wake_all :: "'a worker list \<Rightarrow> 'a worker list" where
  "wake_all ws = map (\<lambda>p. case p of Sleeping \<Rightarrow> Checking | _ \<Rightarrow> p) ws"

datatype 'a pool_event = Enqueued 'a | Rejected 'a

text \<open>\<open>tp_stop\<close> is set by the destructor, which returns (\<open>join\<close>) once every worker has exited.\<close>

definition joined :: "'a pool \<Rightarrow> bool" where
  "joined s \<longleftrightarrow> tp_stop s \<and> \<not> tp_notify_all s \<and> (\<forall>p \<in> set (tp_workers s). p = Exited)"

inductive pool_step :: "'a pool \<Rightarrow> 'a pool_event option \<Rightarrow> 'a pool \<Rightarrow> bool" where
  check: "w < length (tp_workers s) \<Longrightarrow> tp_workers s ! w = Checking \<Longrightarrow> pool_step s None (worker_check w s)"
| finish: "w < length (tp_workers s) \<Longrightarrow> tp_workers s ! w = Running x \<Longrightarrow>
    pool_step s None (set_worker w Checking (s\<lparr>tp_finished := tp_finished s @ [x]\<rparr>))"
| enqueue: "pool_Enqueue x s = Inr s' \<Longrightarrow> pool_step s (Some (Enqueued x)) s'"
| enqueue_error: "pool_Enqueue x s = Inl e \<Longrightarrow> pool_step s (Some (Rejected x)) s"
| notify_one: "tp_notify s = Suc n \<Longrightarrow> w < length (tp_workers s) \<Longrightarrow> tp_workers s ! w = Sleeping \<Longrightarrow>
    pool_step s None (set_worker w Checking (s\<lparr>tp_notify := n\<rparr>))"
| notify_none: "tp_notify s = Suc n \<Longrightarrow> Sleeping \<notin> set (tp_workers s) \<Longrightarrow>
    pool_step s None (s\<lparr>tp_notify := n\<rparr>)"
| stop: "\<not> tp_stop s \<Longrightarrow> pool_step s None (s\<lparr>tp_stop := True, tp_notify_all := True\<rparr>)"
| notify_all: "tp_notify_all s \<Longrightarrow>
    pool_step s None (s\<lparr>tp_workers := wake_all (tp_workers s), tp_notify_all := False\<rparr>)"
| spurious: "w < length (tp_workers s) \<Longrightarrow> tp_workers s ! w = Sleeping \<Longrightarrow>
    pool_step s None (set_worker w Checking s)"


inductive_cases pool_stepE: "pool_step s l s'"

subsection \<open>Invariants\<close>

definition running_of :: "'a worker multiset \<Rightarrow> 'a multiset" where
  "running_of M = sum_mset (image_mset (\<lambda>p. case p of Running x \<Rightarrow> {#x#} | _ \<Rightarrow> {#}) M)"

lemma running_of_simps [simp]:
  "running_of {#} = {#}"
  "running_of (add_mset p M) = (case p of Running x \<Rightarrow> add_mset x (running_of M) | _ \<Rightarrow> running_of M)"
  by (auto simp: running_of_def split: worker.split)

definition work_ok :: "'a worker multiset \<Rightarrow> 'a pool \<Rightarrow> bool" where
  "work_ok M s \<longleftrightarrow>
     mset (tp_started s) = mset (tp_finished s) + running_of M \<and>
     (Exited \<in># M \<longrightarrow> tp_stop s \<and> tp_tasks s = []) \<and>
     (Sleeping \<in># M \<longrightarrow> length (tp_tasks s) \<le> count M Checking + tp_notify s) \<and>
     (tp_stop s \<and> Sleeping \<in># M \<longrightarrow> tp_notify_all s) \<and>
     (tp_notify_all s \<longrightarrow> tp_stop s)"

definition pool_rel :: "nat \<Rightarrow> 'a pool \<Rightarrow> 'a list \<Rightarrow> bool" where
  "pool_rel n s xs \<longleftrightarrow> xs = tp_started s @ tp_tasks s \<and> length (tp_workers s) = n \<and>
     work_ok (mset (tp_workers s)) s"

fun pool_spec :: "'a pool_event \<Rightarrow> 'a list \<Rightarrow> 'a list \<Rightarrow> bool" where
  "pool_spec (Enqueued x) xs ys \<longleftrightarrow> ys = xs @ [x]"
| "pool_spec (Rejected x) xs ys \<longleftrightarrow> ys = xs"

lemma mset_split:
  assumes "w < length ws"
  obtains M where "mset ws = add_mset (ws ! w) M" "\<And>p. mset (ws[w := p]) = add_mset p M"
proof
  show "mset ws = add_mset (ws ! w) (mset ws - {#ws ! w#})" using assms by simp
  show "mset (ws[w := p]) = add_mset p (mset ws - {#ws ! w#})" for p using assms by (simp add: mset_update)
qed

lemma mset_wake_all: "mset (wake_all ws) = image_mset (\<lambda>p. case p of Sleeping \<Rightarrow> Checking | _ \<Rightarrow> p) (mset ws)"
  by (simp add: wake_all_def)

lemma wake_all_facts:
  "running_of (mset (wake_all ws)) = running_of (mset ws)"
  "Exited \<in> set (wake_all ws) \<longleftrightarrow> Exited \<in> set ws" "Sleeping \<notin> set (wake_all ws)"
  by (induction ws) (auto simp: wake_all_def split: worker.splits)

lemma work_ok_workers [simp]: "work_ok M (s\<lparr>tp_workers := ws\<rparr>) \<longleftrightarrow> work_ok M s"
  by (simp add: work_ok_def)

lemma pool_rel_set_worker:
  assumes r: "pool_rel n s xs" and w: "w < length (tp_workers s)"
    and "\<And>M. work_ok (add_mset (tp_workers s ! w) M) s \<Longrightarrow> work_ok (add_mset p M) s'"
    and "tp_workers s' = tp_workers s" "xs' = tp_started s' @ tp_tasks s'"
  shows "pool_rel n (set_worker w p s') xs'"
proof -
  obtain M where M: "mset (tp_workers s) = add_mset (tp_workers s ! w) M"
    "mset ((tp_workers s)[w := p]) = add_mset p M" using mset_split [OF w] by metis
  have "work_ok (add_mset p M) s'" using r M(1) by (intro assms(3)) (simp add: pool_rel_def)
  with r M(2) assms(4,5) show ?thesis by (simp add: pool_rel_def set_worker_def)
qed

lemma work_ok_steps:
  "work_ok (add_mset Checking M) s \<Longrightarrow> \<not> tp_stop s \<Longrightarrow> tp_tasks s = [] \<Longrightarrow> work_ok (add_mset Sleeping M) s"
  "work_ok (add_mset Checking M) s \<Longrightarrow> tp_stop s \<Longrightarrow> tp_tasks s = [] \<Longrightarrow> work_ok (add_mset Exited M) s"
  "work_ok (add_mset Checking M) s \<Longrightarrow> tp_tasks s = x # ys \<Longrightarrow>
     work_ok (add_mset (Running x) M) (s\<lparr>tp_tasks := ys, tp_started := tp_started s @ [x]\<rparr>)"
  "work_ok (add_mset (Running x) M) s \<Longrightarrow>
     work_ok (add_mset Checking M) (s\<lparr>tp_finished := tp_finished s @ [x]\<rparr>)"
  "work_ok (add_mset Sleeping M) s \<Longrightarrow> tp_notify s = Suc k \<Longrightarrow> work_ok (add_mset Checking M) (s\<lparr>tp_notify := k\<rparr>)"
  "work_ok (add_mset Sleeping M) s \<Longrightarrow> work_ok (add_mset Checking M) s"
  by (auto simp: work_ok_def)

lemma pool_rel_xs: "pool_rel n s xs \<Longrightarrow> xs = tp_started s @ tp_tasks s"
  by (simp add: pool_rel_def)

lemma pool_rel_check:
  assumes r: "pool_rel n s xs" and w: "w < length (tp_workers s)" "tp_workers s ! w = Checking"
  shows "pool_rel n (worker_check w s) xs"
proof (cases "tp_tasks s")
  case Nil
  then show ?thesis unfolding worker_check_def using w pool_rel_xs [OF r]
    by (auto intro!: pool_rel_set_worker [OF r] work_ok_steps(1,2))
next
  case (Cons x ys)
  then show ?thesis unfolding worker_check_def using w pool_rel_xs [OF r]
    by (auto intro!: pool_rel_set_worker [OF r] work_ok_steps(3))
qed

lemma pool_silent:
  assumes r: "pool_rel n s xs" and st: "pool_step s None s'"
  shows "pool_rel n s' xs"
  using st
proof (cases rule: pool_step.cases)
  case (check w)
  with pool_rel_check [OF r] show ?thesis by simp
next
  case (finish w x)
  with pool_rel_xs [OF r] show ?thesis by (auto intro!: pool_rel_set_worker [OF r] work_ok_steps(4))
next
  case (notify_one k w)
  with pool_rel_xs [OF r] show ?thesis by (auto intro!: pool_rel_set_worker [OF r] work_ok_steps(5))
next
  case (spurious w)
  with pool_rel_xs [OF r] show ?thesis by (auto intro!: pool_rel_set_worker [OF r] work_ok_steps(6))
next
  case notify_all
  with r show ?thesis by (simp add: pool_rel_def work_ok_def wake_all_facts) (simp add: wake_all_def)
qed (use r in \<open>auto simp: pool_rel_def work_ok_def\<close>)

lemma pool_commit:
  assumes r: "pool_rel n s xs" and st: "pool_step s (Some e) s'"
  shows "\<exists>ys. pool_spec e xs ys \<and> pool_rel n s' ys"
  using st r by (cases rule: pool_step.cases)
    (auto simp: pool_Enqueue_def pool_rel_def work_ok_def split: if_splits)

interpretation workers: forward_simulation pool_step pool_spec "pool_rel n" for n
  by unfold_locales (fact pool_silent, fact pool_commit)


subsection \<open>Shutting down\<close>

fun worker_weight :: "'a worker \<Rightarrow> nat" where
  "worker_weight Exited = 0"
| "worker_weight Checking = 1"
| "worker_weight (Running x) = 2"
| "worker_weight Sleeping = 3"

definition shutdown_measure :: "'a pool \<Rightarrow> nat" where
  "shutdown_measure s = 3 * length (tp_tasks s) + sum_mset (image_mset worker_weight (mset (tp_workers s))) +
     tp_notify s + of_bool (tp_notify_all s)"

lemma weight_wake_all:
  "sum_mset (image_mset worker_weight (mset (wake_all ws))) \<le> sum_mset (image_mset worker_weight (mset ws))"
  by (induction ws) (auto simp: wake_all_def split: worker.splits)

lemma measure_set_worker:
  assumes "w < length (tp_workers s)" "tp_workers s' = tp_workers s"
    "3 * length (tp_tasks s') + worker_weight p + tp_notify s' + of_bool (tp_notify_all s')
     < 3 * length (tp_tasks s) + worker_weight (tp_workers s ! w) + tp_notify s + of_bool (tp_notify_all s)"
  shows "shutdown_measure (set_worker w p s') < shutdown_measure s"
proof -
  obtain M where "mset (tp_workers s) = add_mset (tp_workers s ! w) M"
    "mset ((tp_workers s)[w := p]) = add_mset p M" using mset_split [OF assms(1)] by metis
  with assms show ?thesis by (simp add: shutdown_measure_def set_worker_def)
qed

lemma shutdown_decreases:
  assumes "tp_stop s" "pool_step s None s'"
  shows "shutdown_measure s' < shutdown_measure s"
  using assms(2)
proof (cases rule: pool_step.cases)
  case (check w)
  with assms(1) show ?thesis
    by (cases "tp_tasks s") (auto simp: worker_check_def intro!: measure_set_worker)
next
  case notify_all
  with weight_wake_all [of "tp_workers s"] show ?thesis by (simp add: shutdown_measure_def)
next
  case (notify_none n)
  then show ?thesis by (simp add: shutdown_measure_def)
qed (use assms(1) in \<open>auto intro!: measure_set_worker\<close>)

lemma shutdown_enabled:
  assumes r: "pool_rel n s xs" and s: "tp_stop s" "\<not> joined s"
  shows "\<exists>s'. pool_step s None s'"
proof (cases "tp_notify_all s")
  case False
  with s obtain p where p: "p \<in> set (tp_workers s)" "p \<noteq> Exited" by (auto simp: joined_def)
  then obtain w where w: "w < length (tp_workers s)" "tp_workers s ! w = p" by (auto simp: in_set_conv_nth)
  have "p \<noteq> Sleeping" using p(1) r s(1) False by (auto simp: pool_rel_def work_ok_def)
  with p(2) show ?thesis using check [OF w(1)] finish [OF w(1)] w(2) by (cases p) blast+
qed (auto intro: pool_step.intros)

subsection \<open>Properties\<close>

fun enqueued :: "'a pool_event list \<Rightarrow> 'a list" where
  "enqueued [] = []"
| "enqueued (Enqueued x # es) = x # enqueued es"
| "enqueued (Rejected x # es) = enqueued es"

lemma spec_run_enqueued: "spec_run pool_spec xs es ys \<Longrightarrow> ys = xs @ enqueued es"
proof (induction es arbitrary: xs rule: enqueued.induct)
  case (2 x es)
  then have "spec_run pool_spec (xs @ [x]) es ys" by simp
  from "2.IH" [OF this] show ?case by simp
next
  case (3 x es)
  then have "spec_run pool_spec xs es ys" by simp
  from "3.IH" [OF this] show ?case by simp
qed simp

lemma pool_rel_init: "pool_rel n (ThreadPool n) []"
  by (simp add: pool_rel_def ThreadPool_def work_ok_def running_of_def)

lemma pool_run_rel: "run pool_step (ThreadPool n) es s \<Longrightarrow> pool_rel n s (enqueued es)"
  using workers.run_simulated [OF _ pool_rel_init] spec_run_enqueued by (metis append_Nil)

lemma joined_done:
  assumes "pool_rel n s xs" "joined s" "0 < n"
  shows "tp_tasks s = []" "running_of (mset (tp_workers s)) = {#}"
proof -
  have "tp_workers s = replicate n Exited"
    using assms by (auto simp: joined_def pool_rel_def intro: replicate_eqI)
  then show "running_of (mset (tp_workers s)) = {#}" by (simp add: running_of_def)
  show "tp_tasks s = []" using assms \<open>tp_workers s = _\<close> by (auto simp: pool_rel_def work_ok_def)
qed

text \<open>
  (C13) Tasks start in the order they were enqueued and none is dropped or run twice: at every
  moment the accepted tasks are the started ones followed by the queued ones, and the started
  ones are exactly those finished or running.  When the destructor returns (and the pool had a
  worker), every accepted task has run to completion exactly once.
\<close>

theorem thread_pool_fifo_exactly_once:
  assumes "run pool_step (ThreadPool n) es s"
  shows "enqueued es = tp_started s @ tp_tasks s \<and>
     mset (tp_started s) = mset (tp_finished s) + running_of (mset (tp_workers s)) \<and>
     (joined s \<and> 0 < n \<longrightarrow> tp_started s = enqueued es \<and> mset (tp_finished s) = mset (enqueued es))"
proof -
  have r: "pool_rel n s (enqueued es)" using pool_run_rel [OF assms] .
  have eq: "enqueued es = tp_started s @ tp_tasks s" using pool_rel_xs [OF r] .
  have started: "mset (tp_started s) = mset (tp_finished s) + running_of (mset (tp_workers s))"
    using r by (simp add: pool_rel_def work_ok_def)
  have "tp_started s = enqueued es \<and> mset (tp_finished s) = mset (enqueued es)" if "joined s" "0 < n"
    using eq started joined_done [OF r that] by simp
  with eq started show ?thesis by blast
qed


text \<open>Scheduled executions: a worker's next step, a caller's \<open>Enqueue\<close>, a due notification (to worker
  \<open>w\<close>), or the destructor's two steps.\<close>

datatype 'a pool_action = Work nat | Submit 'a | NotifyOne nat | Stop | NotifyAll

fun pool_act :: "'a pool_action \<Rightarrow> 'a pool \<Rightarrow> ('a pool_event option \<times> 'a pool) option" where
  "pool_act (Work w) s =
     (if w < length (tp_workers s) then
        case tp_workers s ! w of
          Checking \<Rightarrow> Some (None, worker_check w s)
        | Running x \<Rightarrow> Some (None, set_worker w Checking (s\<lparr>tp_finished := tp_finished s @ [x]\<rparr>))
        | _ \<Rightarrow> None
      else None)"
| "pool_act (Submit x) s =
     (case pool_Enqueue x s of Inl e \<Rightarrow> Some (Some (Rejected x), s) | Inr s' \<Rightarrow> Some (Some (Enqueued x), s'))"
| "pool_act (NotifyOne w) s =
     (case tp_notify s of
        0 \<Rightarrow> None
      | Suc n \<Rightarrow>
          if Sleeping \<notin> set (tp_workers s) then Some (None, s\<lparr>tp_notify := n\<rparr>)
          else if w < length (tp_workers s) then
            case tp_workers s ! w of
              Sleeping \<Rightarrow> Some (None, set_worker w Checking (s\<lparr>tp_notify := n\<rparr>))
            | _ \<Rightarrow> None
          else None)"
| "pool_act Stop s = (if tp_stop s then None else Some (None, s\<lparr>tp_stop := True, tp_notify_all := True\<rparr>))"
| "pool_act NotifyAll s =
     (if tp_notify_all s then Some (None, s\<lparr>tp_workers := wake_all (tp_workers s), tp_notify_all := False\<rparr>)
      else None)"

lemma pool_act_step: "pool_act a s = Some (l, s') \<Longrightarrow> pool_step s l s'"
  by (cases a) (auto intro: pool_step.intros split: if_splits worker.splits sum.splits nat.splits)

lemma pool_exec_run: "exec pool_act sched s = Some (es, s') \<Longrightarrow> run pool_step s es s'"
  by (rule exec_run [where act = pool_act]) (rule pool_act_step)

lemmas pool_eval = ThreadPool_def worker_check_def set_worker_def pool_Enqueue_def wake_all_def joined_def

theorem thread_pool_fifo_exactly_once_witness:
  "\<exists>es s. run pool_step (ThreadPool 2) es s \<and> joined s \<and> es = [Enqueued 1, Enqueued 2, Enqueued 3, Rejected (4 :: int)] \<and>
     tp_started s = [1, 2, 3] \<and> mset (tp_finished s) = mset [1, 2, 3]"
proof -
  let ?sched = "[Work 0, Submit 1, Submit 2, Work 1, Work 1, NotifyOne 0, Submit 3, Work 0, Stop, Submit 4,
    Work 1, Work 1, NotifyAll, Work 0, Work 0, Work 1]"
  let ?es = "[Enqueued 1, Enqueued 2, Enqueued 3, Rejected (4 :: int)]"
  obtain s where s: "exec pool_act ?sched (ThreadPool 2) = Some (?es, s)" "joined s"
    by (simp add: pool_eval eval_nat_numeral)
  have r: "run pool_step (ThreadPool 2) ?es s" using pool_exec_run [OF s(1)] .
  have "tp_started s = [1, 2, 3] \<and> mset (tp_finished s) = mset [1, 2, 3]"
    using thread_pool_fifo_exactly_once [OF r, THEN conjunct2, THEN conjunct2] s(2) by simp
  with r s(2) show ?thesis by blast
qed

text \<open>
  (C15) No wake-up is lost: whenever tasks are queued and a worker sleeps, there are at least as
  many workers about to look at the queue or notifications still to be delivered as there are
  queued tasks; so the queue is never left waiting with every worker asleep.
\<close>

theorem thread_pool_no_lost_wakeup:
  assumes "run pool_step (ThreadPool n) es s" "Sleeping \<in> set (tp_workers s)"
  shows "length (tp_tasks s) \<le> count (mset (tp_workers s)) Checking + tp_notify s"
  using pool_run_rel [OF assms(1)] assms(2) by (simp add: pool_rel_def work_ok_def)

theorem thread_pool_no_lost_wakeup_witness:
  "\<exists>es s. run pool_step (ThreadPool 2) es s \<and> Sleeping \<in> set (tp_workers s) \<and> tp_tasks s = [7 :: int] \<and>
     length (tp_tasks s) \<le> count (mset (tp_workers s)) Checking + tp_notify s"
proof -
  obtain s es where s: "exec pool_act [Work 0, Work 1, Submit (7 :: int), NotifyOne 1] (ThreadPool 2) = Some (es, s)"
    "Sleeping \<in> set (tp_workers s)" "tp_tasks s = [7]"
    by (simp add: pool_eval eval_nat_numeral)
  from thread_pool_no_lost_wakeup [OF pool_exec_run [OF s(1)] s(2)] s pool_exec_run [OF s(1)] show ?thesis by blast
qed

text \<open>
  (C18) The destructor returns: once \<open>stop_\<close> is set, as long as it has not joined all workers some
  step is possible, and every step of a worker or notification decreases a measure.  So if
  tasks finish, every schedule of these steps reaches the join after at most that many steps.
\<close>

theorem thread_pool_shutdown:
  assumes "run pool_step (ThreadPool n) es s" "tp_stop s"
  shows "(joined s \<or> (\<exists>s'. pool_step s None s')) \<and>
     {s'. pool_step s None s'} \<subseteq> {s'. shutdown_measure s' < shutdown_measure s}"
  using shutdown_enabled [OF pool_run_rel [OF assms(1)] assms(2)] shutdown_decreases [OF assms(2)] by blast

theorem thread_pool_shutdown_witness:
  "\<exists>es s s'. run pool_step (ThreadPool 1) es s \<and> tp_stop s \<and> tp_tasks s = [7 :: int] \<and>
     pool_step s None s' \<and> shutdown_measure s' < shutdown_measure s"
proof -
  obtain s es where s: "exec pool_act [Work 0, Submit (7 :: int), Stop] (ThreadPool 1) = Some (es, s)"
    "tp_stop s" "tp_tasks s = [7]" "\<not> joined s"
    by (simp add: pool_eval eval_nat_numeral)
  from thread_pool_shutdown [OF pool_exec_run [OF s(1)] s(2)] s pool_exec_run [OF s(1)] show ?thesis by blast
qed

end
