(* ===== verification/Cxx_Text.thy ===== *)
theory Cxx_Text
  imports Prelude "HOL-Library.Char_ord" "HOL-Library.List_Lexorder"
begin

text \<open>
  The parts of the C++ standard library that the text-processing components use: string streams
  with their state bits, \<open>std::getline\<close>, decimal printing, and \<open>std::map\<close> with string keys.  A
  \<open>std::map\<close> is its list of entries in key order, the order in which the code iterates over it.
\<close>

subsection \<open>String streams\<close>

record stringstream =
  ss_buf :: string
  ss_pos :: nat
  ss_eof :: bool
  ss_fail :: bool

definition ss_of :: "string \<Rightarrow> stringstream" where
  "ss_of str = \<lparr> ss_buf = str, ss_pos = 0, ss_eof = False, ss_fail = False \<rparr>"

definition ss_good :: "stringstream \<Rightarrow> bool" where
  "ss_good s \<longleftrightarrow> \<not> ss_eof s \<and> \<not> ss_fail s"

definition ss_rest :: "stringstream \<Rightarrow> string" where
  "ss_rest s = drop (ss_pos s) (ss_buf s)"

text \<open>
  \<open>getline(s, line, d)\<close>, with \<open>old\<close> the previous contents of \<open>line\<close>: a stream that is not good keeps
  the line and fails; otherwise characters up to the delimiter are taken and the delimiter is
  dropped; running into the end sets \<open>eof\<close>, and \<open>fail\<close> if nothing was taken.
\<close>

definition ss_getline :: "char \<Rightarrow> string \<Rightarrow> stringstream \<Rightarrow> string \<times> stringstream" where
  "ss_getline d old s =
     (if \<not> ss_good s then (old, s\<lparr>ss_fail := True\<rparr>)
      else
        let line = takeWhile (\<lambda>c. c \<noteq> d) (ss_rest s) in
        if length line < length (ss_rest s) then (line, s\<lparr>ss_pos := ss_pos s + length line + 1\<rparr>)
        else (line, s\<lparr>ss_pos := length (ss_buf s), ss_eof := True, ss_fail := (line = [])\<rparr>))"

text \<open>\<open>write\<close> and \<open><<\<close> append, on a good stream only.\<close>

definition ss_write :: "string \<Rightarrow> stringstream \<Rightarrow> stringstream" where
  "ss_write str s = (if ss_good s then s\<lparr>ss_buf := ss_buf s @ str\<rparr> else s\<lparr>ss_fail := True\<rparr>)"

text \<open>\<open>seekg\<close> clears \<open>eof\<close>, does nothing more on a failed stream, and fails outside the buffer.\<close>

definition ss_seekg :: "int \<Rightarrow> stringstream \<Rightarrow> stringstream" where
  "ss_seekg off s =
     (if ss_fail s then s\<lparr>ss_eof := False\<rparr>
      else if 0 \<le> off \<and> off \<le> int (length (ss_buf s)) then s\<lparr>ss_eof := False, ss_pos := nat off\<rparr>
      else s\<lparr>ss_eof := False, ss_fail := True\<rparr>)"

definition ss_readsome :: "nat \<Rightarrow> stringstream \<Rightarrow> string \<times> stringstream" where
  "ss_readsome n s =
     (if \<not> ss_good s then ([], s\<lparr>ss_fail := True\<rparr>)
      else let got = take n (ss_rest s) in (got, s\<lparr>ss_pos := ss_pos s + length got\<rparr>))"

text \<open>\<open>read\<close> with its \<open>gcount\<close>, the length of what was read; a short read sets both bits.\<close>

definition ss_read :: "nat \<Rightarrow> stringstream \<Rightarrow> string \<times> stringstream" where
  "ss_read n s =
     (if \<not> ss_good s then ([], s\<lparr>ss_fail := True\<rparr>)
      else
        let got = take n (ss_rest s) in
        if length got < n then (got, s\<lparr>ss_pos := length (ss_buf s), ss_eof := True, ss_fail := True\<rparr>)
        else (got, s\<lparr>ss_pos := ss_pos s + n\<rparr>))"

definition ss_clear :: "stringstream \<Rightarrow> stringstream" where
  "ss_clear s = s\<lparr>ss_eof := False, ss_fail := False\<rparr>"

definition ss_tellg :: "stringstream \<Rightarrow> int" where
  "ss_tellg s = (if \<not> ss_good s then - 1 else int (ss_pos s))"

lemmas ss_defs = ss_of_def ss_good_def ss_rest_def

lemma ss_of_simps [simp]: "ss_good (ss_of str)" "ss_rest (ss_of str) = str" "ss_buf (ss_of str) = str"
  by (simp_all add: ss_defs)

definition ss_measure :: "stringstream \<Rightarrow> nat" where
  "ss_measure s = (if ss_good s then Suc (length (ss_rest s)) else 0)"

lemma ss_getline_measure:
  assumes "ss_good s"
  shows "ss_measure (snd (ss_getline d old s)) < ss_measure s"
proof (cases "length (takeWhile (\<lambda>c. c \<noteq> d) (ss_rest s)) < length (ss_rest s)")
  case True
  with assms show ?thesis by (auto simp: ss_getline_def ss_measure_def ss_rest_def ss_good_def Let_def)
next
  case False
  with assms show ?thesis by (auto simp: ss_getline_def ss_measure_def ss_good_def Let_def)
qed

lemma ss_getline_measure_le: "ss_measure (snd (ss_getline d old s)) \<le> ss_measure s"
proof (cases "ss_good s")
  case True
  then show ?thesis using ss_getline_measure [of s d old] by simp
next
  case False
  then show ?thesis by (simp add: ss_getline_def ss_measure_def ss_good_def)
qed

text \<open>The loop \<open>while (s.good()) { std::string l; std::getline(s, l, d); ... }\<close>, its body given by \<open>f\<close>.\<close>

function ss_fold :: "char \<Rightarrow> ('a \<Rightarrow> string \<Rightarrow> 'a) \<Rightarrow> stringstream \<Rightarrow> 'a \<Rightarrow> 'a" where
  "ss_fold d f s acc =
     (if ss_good s then let ls = ss_getline d [] s in ss_fold d f (snd ls) (f acc (fst ls)) else acc)"
  by pat_completeness auto
termination
  by (relation "measure (\<lambda>(d, f, s, acc). ss_measure s)") (auto simp: ss_getline_measure)

declare ss_fold.simps [simp del]

subsection \<open>The pieces a stream is read in\<close>

function split_on :: "char \<Rightarrow> string \<Rightarrow> string list" where
  "split_on d str =
     (case dropWhile (\<lambda>c. c \<noteq> d) str of
        [] \<Rightarrow> [str]
      | _ # rest \<Rightarrow> takeWhile (\<lambda>c. c \<noteq> d) str # split_on d rest)"
  by pat_completeness auto
termination
proof (relation "measure (\<lambda>(d, str). length str)", goal_cases)
  case (2 d str c rest)
  then have "length rest < length (dropWhile (\<lambda>c. c \<noteq> d) str)" by simp
  with length_dropWhile_le [of "\<lambda>c. c \<noteq> d" str] show ?case by simp
qed simp

declare split_on.simps [simp del]

lemma split_on_none: "d \<notin> set str \<Longrightarrow> split_on d str = [str]"
proof -
  assume "d \<notin> set str"
  then have "dropWhile (\<lambda>c. c \<noteq> d) str = []" by auto
  then show ?thesis by (subst split_on.simps) (simp only: list.case)
qed

lemma split_on_append: "d \<notin> set a \<Longrightarrow> split_on d (a @ d # b) = a # split_on d b"
proof -
  assume "d \<notin> set a"
  then have "dropWhile (\<lambda>c. c \<noteq> d) (a @ d # b) = d # b" "takeWhile (\<lambda>c. c \<noteq> d) (a @ d # b) = a"
    by (auto simp: dropWhile_append takeWhile_append)
  then show ?thesis by (subst split_on.simps) simp
qed

lemma split_on_Nil [simp]: "split_on d [] = [[]]"
  by (simp add: split_on_none)

lemma split_on_not_Nil [simp]: "split_on d str \<noteq> []"
  by (subst split_on.simps) (simp split: list.split)

text \<open>Printing pieces with a delimiter between them is undone by splitting.\<close>

fun join_on :: "char \<Rightarrow> string list \<Rightarrow> string" where
  "join_on d [] = []"
| "join_on d [x] = x"
| "join_on d (x # xs) = x @ d # join_on d xs"

lemma split_on_join: "xs \<noteq> [] \<Longrightarrow> \<forall>x \<in> set xs. d \<notin> set x \<Longrightarrow> split_on d (join_on d xs) = xs"
  by (induction d xs rule: join_on.induct) (auto simp: split_on_none split_on_append)

lemma join_on_split: "join_on d (split_on d str) = str"
proof (induction d str rule: split_on.induct)
  case (1 d str)
  show ?case
  proof (cases "d \<in> set str")
    case True
    then obtain a b where ab: "str = a @ d # b" "d \<notin> set a" using split_list_first by fastforce
    then have "dropWhile (\<lambda>c. c \<noteq> d) str = d # b" by (auto simp: dropWhile_append)
    from "1.IH" [OF this] ab show ?thesis
      by (cases "split_on d b") (simp_all add: split_on_append)
  qed (simp add: split_on_none)
qed

text \<open>One \<open>getline\<close> takes the first piece; it leaves the stream good iff there are more.\<close>

lemma ss_getline_last:
  assumes "ss_good s" "d \<notin> set (ss_rest s)"
  shows "fst (ss_getline d old s) = ss_rest s" "\<not> ss_good (snd (ss_getline d old s))"
    "ss_getline d old s =
       (ss_rest s, s\<lparr>ss_pos := length (ss_buf s), ss_eof := True, ss_fail := (ss_rest s = [])\<rparr>)"
proof -
  have "takeWhile (\<lambda>c. c \<noteq> d) (ss_rest s) = ss_rest s" using assms(2) by (auto simp: takeWhile_eq_all_conv)
  with assms show *: "ss_getline d old s =
      (ss_rest s, s\<lparr>ss_pos := length (ss_buf s), ss_eof := True, ss_fail := (ss_rest s = [])\<rparr>)"
    by (simp only: ss_getline_def Let_def) simp
  show "fst (ss_getline d old s) = ss_rest s" "\<not> ss_good (snd (ss_getline d old s))"
    by (simp_all add: * ss_good_def)
qed

lemma ss_getline_more:
  assumes "ss_good s" "ss_rest s = line @ d # rest" "d \<notin> set line"
  shows "fst (ss_getline d old s) = line" "ss_good (snd (ss_getline d old s))"
    "ss_rest (snd (ss_getline d old s)) = rest" "ss_buf (snd (ss_getline d old s)) = ss_buf s"
proof -
  have tw: "takeWhile (\<lambda>c. c \<noteq> d) (ss_rest s) = line" using assms(2,3) by (auto simp: takeWhile_append)
  have g: "ss_getline d old s = (line, s\<lparr>ss_pos := ss_pos s + length line + 1\<rparr>)"
    using assms by (simp add: ss_getline_def tw Let_def) (simp add: assms(2) [symmetric] tw)
  have "drop (Suc (ss_pos s + length line)) (ss_buf s) = drop (Suc (length line)) (ss_rest s)"
    by (simp add: ss_rest_def add.commute)
  also have "\<dots> = rest" by (simp add: assms(2))
  finally show "fst (ss_getline d old s) = line" "ss_good (snd (ss_getline d old s))"
    "ss_rest (snd (ss_getline d old s)) = rest" "ss_buf (snd (ss_getline d old s)) = ss_buf s"
    using assms(1) by (simp_all add: g ss_good_def ss_rest_def)
qed

lemma ss_fold_not_good: "\<not> ss_good s \<Longrightarrow> ss_fold d f s acc = acc"
  by (simp add: ss_fold.simps)

lemma ss_fold_split:
  "ss_good s \<Longrightarrow> ss_fold d f s acc = foldl f acc (split_on d (ss_rest s))"
proof (induction d f s acc rule: ss_fold.induct)
  case (1 d f s acc)
  show ?case
  proof (cases "d \<in> set (ss_rest s)")
    case False
    then show ?thesis using "1.prems" ss_getline_last [OF "1.prems" False, of "[]"]
      by (subst ss_fold.simps) (simp add: Let_def ss_fold_not_good split_on_none)
  next
    case True
    then obtain line rest where lr: "ss_rest s = line @ d # rest" "d \<notin> set line" using split_list_first by fastforce
    note g = ss_getline_more [OF "1.prems" lr, of "[]"]
    have "ss_fold d f s acc = ss_fold d f (snd (ss_getline d [] s)) (f acc line)"
      using "1.prems" g(1) by (subst ss_fold.simps) (simp add: Let_def)
    also have "\<dots> = foldl f (f acc line) (split_on d rest)"
      using "1.IH" [OF "1.prems" refl] g by simp
    finally show ?thesis using lr by (simp add: split_on_append)
  qed
qed

subsection \<open>Decimal numbers\<close>

fun nat_str :: "nat \<Rightarrow> string" where
  "nat_str n = (if n < 10 then [char_of (48 + n)] else nat_str (n div 10) @ [char_of (48 + n mod 10)])"

declare nat_str.simps [simp del]

definition int_str :: "int \<Rightarrow> string" where
  "int_str i = (if i < 0 then CHR ''-'' # nat_str (nat (- i)) else nat_str (nat i))"

text \<open>Reading decimal digits, as \<open>strtol\<close> does: the value and the unread rest.\<close>

definition is_digit :: "char \<Rightarrow> bool" where
  "is_digit c \<longleftrightarrow> of_char c \<in> {48..57 :: nat}"

fun digits_val :: "nat \<Rightarrow> string \<Rightarrow> nat" where
  "digits_val v [] = v"
| "digits_val v (c # cs) = digits_val (10 * v + (of_char c - 48)) cs"

lemma digits_val_append: "digits_val v (xs @ ys) = digits_val (digits_val v xs) ys"
  by (induction xs arbitrary: v) auto

lemma nat_str_digits: "\<forall>c \<in> set (nat_str n). is_digit c"
proof (induction n rule: nat_str.induct)
  case (1 n)
  then show ?case by (subst nat_str.simps) (auto simp: is_digit_def)
qed

lemma nat_str_not_Nil [simp]: "nat_str n \<noteq> []"
  by (subst nat_str.simps) simp

lemma digits_val_nat_str: "digits_val 0 (nat_str n) = n"
proof (induction n rule: nat_str.induct)
  case (1 n)
  then show ?case by (subst nat_str.simps) (auto simp: digits_val_append)
qed

lemma nat_str_inj: "nat_str m = nat_str n \<longleftrightarrow> m = n"
  using digits_val_nat_str by metis

subsection \<open>Maps with string keys\<close>

type_synonym 'v smap = "(string \<times> 'v) list"

text \<open>\<open>m[k] = v\<close>\<close>

fun smap_set :: "string \<Rightarrow> 'v \<Rightarrow> 'v smap \<Rightarrow> 'v smap" where
  "smap_set k v [] = [(k, v)]"
| "smap_set k v ((k', v') # m) =
     (if k < k' then (k, v) # (k', v') # m
      else if k = k' then (k, v) # m
      else (k', v') # smap_set k v m)"

text \<open>\<open>m.insert({k, v})\<close> keeps an existing entry.\<close>

definition smap_insert :: "string \<Rightarrow> 'v \<Rightarrow> 'v smap \<Rightarrow> 'v smap" where
  "smap_insert k v m = (if map_of m k = None then smap_set k v m else m)"

text \<open>\<open>m[k]\<close> as a value inserts a default entry when there is none.\<close>

definition smap_index :: "string \<Rightarrow> 'v \<Rightarrow> 'v smap \<Rightarrow> 'v \<times> 'v smap" where
  "smap_index k dflt m = (case map_of m k of Some v \<Rightarrow> (v, m) | None \<Rightarrow> (dflt, smap_set k dflt m))"

definition smap_ok :: "'v smap \<Rightarrow> bool" where
  "smap_ok m \<longleftrightarrow> sorted_wrt (<) (map fst m)"

lemma set_smap_set: "set (map fst (smap_set k v m)) = insert k (set (map fst m))"
  by (induction k v m rule: smap_set.induct) auto

lemma smap_ok_Nil [simp]: "smap_ok []"
  by (simp add: smap_ok_def)

lemma smap_ok_set [simp]: "smap_ok m \<Longrightarrow> smap_ok (smap_set k v m)"
proof (induction k v m rule: smap_set.induct)
  case (2 k v k' v' m)
  then show ?case using set_smap_set [of k v m] by (auto simp: smap_ok_def)
qed (simp add: smap_ok_def)

lemma map_of_smap_set [simp]: "smap_ok m \<Longrightarrow> map_of (smap_set k v m) = (map_of m)(k \<mapsto> v)"
proof (induction k v m rule: smap_set.induct)
  case (2 k v k' v' m)
  then show ?case by (auto simp: smap_ok_def fun_upd_twist)
qed simp

lemma smap_ok_insert [simp]: "smap_ok m \<Longrightarrow> smap_ok (smap_insert k v m)"
  by (simp add: smap_insert_def)

lemma map_of_smap_insert [simp]:
  "smap_ok m \<Longrightarrow> map_of (smap_insert k v m) = (if map_of m k = None then (map_of m)(k \<mapsto> v) else map_of m)"
  by (simp add: smap_insert_def)

interpretation smap: entry_map smap_set smap_ok
proof
  show "fst ` set (smap_set k v m) = insert k (fst ` set m)" for k v and m :: "'a smap"
    using set_smap_set [of k v m] by simp
qed simp_all

end
