(* ===== verification/String_Util.thy ===== *)
theory String_Util
  imports Cxx_Text
begin

text \<open>
  The string helpers of \<^verbatim>\<open>src/util/string/string_util.h\<close> and \<^verbatim>\<open>.cc\<close>: trimming and splitting with
  trimmed pieces.  \<open>isspace\<close> is that of the C locale.
\<close>

subsection \<open>Operations\<close>

definition isspace :: "char \<Rightarrow> bool" where
  "isspace c \<longleftrightarrow> of_char c \<in> {9..13 :: nat} \<or> of_char c = (32 :: nat)"

definition ltrim :: "string \<Rightarrow> string" where
  "ltrim s = dropWhile isspace s"

definition rtrim :: "string \<Rightarrow> string" where
  "rtrim s = rev (dropWhile isspace (rev s))"

definition trim :: "string \<Rightarrow> string" where
  "trim s = ltrim (rtrim s)"

definition string_split :: "string \<Rightarrow> char \<Rightarrow> string list \<Rightarrow> string list" where
  "string_split str delimter res = ss_fold delimter (\<lambda>res elem. res @ [trim elem]) (ss_of str) res"

subsection \<open>Facts\<close>

lemma ltrim_trimmed: "str = [] \<or> \<not> isspace (hd str) \<Longrightarrow> ltrim str = str"
  by (cases str) (auto simp: ltrim_def)

lemma rtrim_trimmed: "str = [] \<or> \<not> isspace (last str) \<Longrightarrow> rtrim str = str"
  by (cases str rule: rev_cases) (auto simp: rtrim_def)

lemma rtrim_append_space: "\<forall>c \<in> set ws. isspace c \<Longrightarrow> rtrim (str @ ws) = rtrim str"
  by (simp add: rtrim_def dropWhile_append)

lemma ltrim_append_space: "\<forall>c \<in> set ws. isspace c \<Longrightarrow> ltrim (ws @ str) = ltrim str"
  by (simp add: ltrim_def dropWhile_append)

text \<open>A string without surrounding white space.\<close>

definition trimmed :: "string \<Rightarrow> bool" where
  "trimmed str \<longleftrightarrow> str = [] \<or> (\<not> isspace (hd str) \<and> \<not> isspace (last str))"

lemma trim_trimmed: "trimmed str \<Longrightarrow> trim str = str"
  by (auto simp: trimmed_def trim_def ltrim_trimmed rtrim_trimmed)

lemma trim_padded:
  assumes "trimmed str" "\<forall>c \<in> set a. isspace c" "\<forall>c \<in> set b. isspace c"
  shows "trim (a @ str @ b) = str"
proof -
  have "rtrim (a @ str @ b) = (if str = [] then rtrim a else a @ str)"
    using assms rtrim_append_space [of b "a @ str"] rtrim_trimmed [of "a @ str"] by (auto simp: trimmed_def)
  moreover have "rtrim a = []" using rtrim_append_space [of a "[]"] assms(2) by (simp add: rtrim_def)
  ultimately show ?thesis
    using assms ltrim_append_space [of a str] ltrim_trimmed [of str] by (auto simp: trim_def trimmed_def ltrim_def)
qed

lemma rtrim_last: "rtrim str \<noteq> [] \<Longrightarrow> \<not> isspace (last (rtrim str))"
  using hd_dropWhile [of isspace "rev str"] by (auto simp: rtrim_def last_rev)

lemma trim_is_trimmed: "trimmed (trim str)"
proof (cases "trim str = []")
  case False
  have "trim str = dropWhile isspace (rtrim str)" by (simp add: trim_def ltrim_def)
  moreover from this False have "last (trim str) = last (rtrim str)" "rtrim str \<noteq> []"
    using takeWhile_dropWhile_id [of isspace "rtrim str"] by (metis last_appendR, auto)
  ultimately show ?thesis using False hd_dropWhile [of isspace "rtrim str"] rtrim_last [of str]
    by (auto simp: trimmed_def)
qed (simp add: trimmed_def)

lemma foldl_snoc_map: "foldl (\<lambda>res x. res @ [f x]) res xs = res @ map f xs"
  by (induction xs arbitrary: res) auto

lemma string_split_eq: "string_split str d res = res @ map trim (split_on d str)"
  by (simp add: string_split_def ss_fold_split foldl_snoc_map)

subsection \<open>Properties\<close>


end
