(* ===== verification/Http_Request.thy ===== *)
theory Http_Request
  imports String_Util
begin

text \<open>
  Incremental parsing of HTTP requests: \<^verbatim>\<open>src/http/http_server/http_request.h\<close> and \<^verbatim>\<open>.cpp\<close>.  A chunk
  read from the socket is a string of its bytes.  The logging calls are left out.  The request
  size is an \<open>int\<close> that stays far below its limit: a connection is closed as soon as it exceeds
  \<open>MAX_REQUEST_SIZE\<close>.
\<close>

subsection \<open>State\<close>

datatype parse_phase = PARSE_REQ_LINE | PARSE_REQ_HEAD | PARSE_REQ_BODY | PARSE_REQ_OVER

datatype read_status = READ_ERROR | READ_OVER | READ_CONTINUE | READ_REACH_MAX_SIZE

record http_request =
  hr_method :: string
  hr_url :: string
  hr_uri :: string
  hr_http_version :: string
  hr_headers :: "string smap"
  hr_url_params :: "string smap"
  hr_body_params :: "string smap"
  hr_parse_part :: parse_phase
  hr_req_buff :: stringstream
  hr_total_req_size :: int

definition MAX_REQUEST_SIZE :: int where
  "MAX_REQUEST_SIZE = 1024 * 1024 * 10"

definition HttpRequest :: http_request where
  "HttpRequest = \<lparr> hr_method = [], hr_url = [], hr_uri = [], hr_http_version = [], hr_headers = [],
     hr_url_params = [], hr_body_params = [], hr_parse_part = PARSE_REQ_LINE, hr_req_buff = ss_of [],
     hr_total_req_size = 0 \<rparr>"

text \<open>Carriage return and line feed.\<close>

definition CR :: char where "CR = CHR 0x0D"
definition LF :: char where "LF = CHR 0x0A"

subsection \<open>Operations\<close>

definition is_read_over :: "http_request \<Rightarrow> bool \<times> http_request" where
  "is_read_over r =
     (let s1 = ss_seekg (int (length (ss_buf (hr_req_buff r))) - 4) (hr_req_buff r);
          (buff, s2) = ss_readsome 4 s1
      in if buff \<noteq> [CR, LF, CR, LF] then (False, r\<lparr>hr_req_buff := s2\<rparr>)
         else (True, r\<lparr>hr_req_buff := ss_seekg 0 s2\<rparr>))"

text \<open>The loop that reads \<open>key=value\<close> pairs, two \<open>getline\<close>s per round.\<close>

function kv_loop :: "(string \<Rightarrow> string \<Rightarrow> string smap \<Rightarrow> string smap) \<Rightarrow> stringstream \<Rightarrow> string smap \<Rightarrow> string smap" where
  "kv_loop upd s params =
     (if ss_good s then
        let ks = ss_getline (CHR ''='') [] s;
            vs = ss_getline (CHR ''='') [] (snd ks)
        in kv_loop upd (snd vs) (upd (fst ks) (fst vs) params)
      else params)"
  by pat_completeness auto
termination
proof (relation "measure (\<lambda>(upd, s, params). ss_measure s)", goal_cases)
  case (2 upd s params ks vs)
  then show ?case
    using ss_getline_measure [of s "CHR ''=''" "[]"] ss_getline_measure_le [of "CHR ''=''" "[]" "snd ks"] by simp
qed simp

declare kv_loop.simps [simp del]

definition parse_url_params :: "http_request \<Rightarrow> int \<times> http_request" where
  "parse_url_params r =
     (let (uri, s) = ss_getline (CHR ''?'') (hr_uri r) (ss_of (hr_url r));
          r1 = r\<lparr>hr_uri := uri\<rparr>
      in if ss_good s then
           let (query_url, _) = ss_getline (CHR ''?'') [] s in
           (0, r1\<lparr>hr_url_params :=
                   ss_fold (CHR ''&'') (\<lambda>params kv. kv_loop smap_set (ss_of kv) params)
                     (ss_of query_url) (hr_url_params r1)\<rparr>)
         else (0, r1))"

definition parse_body :: "string \<Rightarrow> http_request \<Rightarrow> int \<times> http_request" where
  "parse_body body r =
     (0, r\<lparr>hr_body_params :=
            ss_fold (CHR ''&'') (\<lambda>params kv. kv_loop smap_insert (ss_of kv) params)
              (ss_of body) (hr_body_params r)\<rparr>)"

definition parse_request_line :: "string \<Rightarrow> http_request \<Rightarrow> int \<times> http_request" where
  "parse_request_line line r =
     (let (m, s1) = ss_getline (CHR '' '') (hr_method r) (ss_of line);
          r1 = r\<lparr>hr_method := m\<rparr>
      in if \<not> ss_good s1 then (- 1, r1)
         else
           let (u, s2) = ss_getline (CHR '' '') (hr_url r1) s1;
               r2 = r1\<lparr>hr_url := u\<rparr>
           in if \<not> ss_good s2 then (- 1, r2)
              else
                let (ret, r3) = parse_url_params r2 in
                if ret \<noteq> 0 then (- 1, r3)
                else
                  let (v, s3) = ss_getline (CHR '' '') (hr_http_version r3) s2 in
                  (0, r3\<lparr>hr_http_version := v\<rparr>))"

lemma parse_request_line_buff: "hr_req_buff (snd (parse_request_line line r)) = hr_req_buff r"
  by (simp add: parse_request_line_def parse_url_params_def Let_def split: prod.split)

text \<open>
  The loop of \<open>OnReadable\<close> over the lines of the buffer.  The first component is the status of an
  early \<open>return\<close>, \<^const>\<open>None\<close> when the loop ends.
\<close>

function read_loop :: "http_request \<Rightarrow> read_status option \<times> http_request" where
  "read_loop r =
     (if \<not> ss_good (hr_req_buff r) then (None, r)
      else
        let ls = ss_getline LF [] (hr_req_buff r);
            line = fst ls;
            r1 = r\<lparr>hr_req_buff := snd ls\<rparr>
        in
        if line = [CR] then
          read_loop (r1\<lparr>hr_parse_part :=
            (if hr_method r1 = ''POST'' then PARSE_REQ_OVER else PARSE_REQ_OVER)\<rparr>)
        else if hr_parse_part r1 = PARSE_REQ_LINE then
          let pr = parse_request_line line r1 in
          if fst pr \<noteq> 0 then (Some READ_ERROR, snd pr)
          else if hr_method (snd pr) \<noteq> ''POST'' \<and> hr_method (snd pr) \<noteq> ''GET'' then (Some READ_ERROR, snd pr)
          else read_loop ((snd pr)\<lparr>hr_parse_part := PARSE_REQ_HEAD\<rparr>)
        else if hr_parse_part r1 = PARSE_REQ_HEAD \<and> line \<noteq> [] then
          let parts = string_split line (CHR '':'') [] in
          if length parts < 2 then read_loop r1
          else read_loop (r1\<lparr>hr_headers := smap_set (parts ! 0) (parts ! 1) (hr_headers r1)\<rparr>)
        else if hr_parse_part r1 = PARSE_REQ_BODY \<and> line \<noteq> [] then
          (None, (snd (parse_body line r1))\<lparr>hr_parse_part := PARSE_REQ_OVER\<rparr>)
        else read_loop r1)"
  by pat_completeness auto
termination
  by (relation "measure (\<lambda>r. ss_measure (hr_req_buff r))")
    (simp_all add: ss_getline_measure parse_request_line_buff)

declare read_loop.simps [simp del]

definition OnReadable :: "string \<Rightarrow> http_request \<Rightarrow> read_status \<times> http_request" where
  "OnReadable read_buffer r =
     (let r1 = r\<lparr>hr_total_req_size := hr_total_req_size r + int (length read_buffer)\<rparr> in
      if hr_total_req_size r1 > MAX_REQUEST_SIZE then (READ_REACH_MAX_SIZE, r1)
      else
        let r2 = r1\<lparr>hr_req_buff := ss_write read_buffer (hr_req_buff r1)\<rparr> in
        if hr_total_req_size r2 < 4 then (READ_CONTINUE, r2)
        else
          let (over, r3) = is_read_over r2 in
          if \<not> over then (READ_CONTINUE, r3)
          else
            case read_loop r3 of
              (Some st, r4) \<Rightarrow> (st, r4)
            | (None, r4) \<Rightarrow>
                if hr_parse_part r4 \<noteq> PARSE_REQ_OVER then (READ_CONTINUE, r4) else (READ_OVER, r4))"


subsection \<open>Query parameters\<close>

fun pair_up :: "string list \<Rightarrow> (string \<times> string) list" where
  "pair_up [] = []"
| "pair_up [k] = [(k, [])]"
| "pair_up (k # v # rest) = (k, v) # pair_up rest"

lemma kv_loop_not_good: "\<not> ss_good s \<Longrightarrow> kv_loop upd s m = m"
  by (simp add: kv_loop.simps)

lemma kv_loop_pairs:
  "ss_good s \<Longrightarrow> kv_loop upd s m = foldl (\<lambda>m (k, v). upd k v m) m (pair_up (split_on (CHR ''='') (ss_rest s)))"
proof (induction upd s m rule: kv_loop.induct)
  case (1 upd s m)
  let ?e = "CHR ''=''"
  have unfold: "kv_loop upd s m = kv_loop upd (snd (ss_getline ?e [] (snd (ss_getline ?e [] s))))
      (upd (fst (ss_getline ?e [] s)) (fst (ss_getline ?e [] (snd (ss_getline ?e [] s)))) m)"
    using "1.prems" by (subst kv_loop.simps) (simp add: Let_def)
  show ?case
  proof (cases "?e \<in> set (ss_rest s)")
    case False
    note g = ss_getline_last [OF "1.prems" False, of "[]"]
    have "ss_getline ?e [] (snd (ss_getline ?e [] s)) = ([], (snd (ss_getline ?e [] s))\<lparr>ss_fail := True\<rparr>)"
      using g(2) by (simp add: ss_getline_def [of _ _ "snd (ss_getline ?e [] s)"])
    then show ?thesis using g False by (simp add: unfold kv_loop_not_good ss_good_def split_on_none)
  next
    case True
    then obtain k rest where lr: "ss_rest s = k @ ?e # rest" "?e \<notin> set k" using split_list_first by fastforce
    note g = ss_getline_more [OF "1.prems" lr, of "[]"]
    let ?s1 = "snd (ss_getline ?e [] s)"
    show ?thesis
    proof (cases "?e \<in> set rest")
      case False
      then have "?e \<notin> set (ss_rest ?s1)" using g by simp
      note h = ss_getline_last [OF g(2) this, of "[]"]
      show ?thesis using g h lr False
        by (simp add: unfold kv_loop_not_good split_on_append split_on_none del: h(3))
    next
      case True
      then obtain v rest' where lr': "rest = v @ ?e # rest'" "?e \<notin> set v" using split_list_first by fastforce
      note h = ss_getline_more [OF g(2) _ lr'(2), of rest' "[]"]
      have ih: "kv_loop upd (snd (ss_getline ?e [] ?s1)) (upd k v m) =
          foldl (\<lambda>m (k, v). upd k v m) (upd k v m) (pair_up (split_on ?e rest'))"
        using "1.IH" [OF "1.prems" refl refl] g h lr' by simp
      show ?thesis using g h lr lr' ih by (simp add: unfold split_on_append)
    qed
  qed
qed

definition kv_pieces :: "string \<Rightarrow> (string \<times> string) list" where
  "kv_pieces query = concat (map (\<lambda>kv. pair_up (split_on (CHR ''='') kv)) (split_on (CHR ''&'') query))"

lemma foldl_concat_map: "foldl (\<lambda>m x. foldl f m (g x)) m xs = foldl f m (concat (map g xs))"
  by (induction xs arbitrary: m) auto

lemma params_fold:
  "ss_fold (CHR ''&'') (\<lambda>params kv. kv_loop upd (ss_of kv) params) (ss_of q) m
   = foldl (\<lambda>m (k, v). upd k v m) m (kv_pieces q)"
  by (simp add: ss_fold_split kv_loop_pairs foldl_concat_map kv_pieces_def)

definition set_all :: "(string \<times> 'v) list \<Rightarrow> 'v smap \<Rightarrow> 'v smap" where
  "set_all kvs m = foldl (\<lambda>m (k, v). smap_set k v m) m kvs"

lemma set_all_ok: "smap_ok m \<Longrightarrow> smap_ok (set_all kvs m)"
  unfolding set_all_def by (induction kvs arbitrary: m) auto

lemma map_of_set_all: "smap_ok m \<Longrightarrow> map_of (set_all kvs m) = map_of m ++ map_of (rev kvs)"
  unfolding set_all_def
  by (induction kvs arbitrary: m) (auto simp: map_add_def fun_eq_iff split: option.splits)

lemma parse_url_params_eq:
  "parse_url_params r =
     (case split_on (CHR ''?'') (hr_url r) of
        uri # query # _ \<Rightarrow> (0, r\<lparr>hr_uri := uri, hr_url_params := set_all (kv_pieces query) (hr_url_params r)\<rparr>)
      | uri # [] \<Rightarrow> (0, r\<lparr>hr_uri := uri\<rparr>))"
proof (cases "CHR ''?'' \<in> set (hr_url r)")
  case False
  then have g: "ss_getline (CHR ''?'') (hr_uri r) (ss_of (hr_url r)) =
      (hr_url r, (ss_of (hr_url r))\<lparr>ss_pos := length (hr_url r), ss_eof := True, ss_fail := (hr_url r = [])\<rparr>)"
    by (simp add: ss_getline_last(3))
  from False show ?thesis by (simp add: parse_url_params_def g split_on_none ss_good_def Let_def)
next
  case True
  then obtain u rest where lr: "hr_url r = u @ CHR ''?'' # rest" "CHR ''?'' \<notin> set u" using split_list_first by fastforce
  then have "ss_rest (ss_of (hr_url r)) = u @ CHR ''?'' # rest" by simp
  note g = ss_getline_more [OF ss_of_simps(1) this lr(2), of "hr_uri r"]
  let ?s = "snd (ss_getline (CHR ''?'') (hr_uri r) (ss_of (hr_url r)))"
  have "fst (ss_getline (CHR ''?'') [] ?s) = hd (split_on (CHR ''?'') rest)"
  proof (cases "CHR ''?'' \<in> set rest")
    case False
    then show ?thesis using ss_getline_last(1) [OF g(2)] g(3) by (simp add: split_on_none)
  next
    case True
    then obtain q rest' where "rest = q @ CHR ''?'' # rest'" "CHR ''?'' \<notin> set q" using split_list_first by fastforce
    then show ?thesis using ss_getline_more(1) [OF g(2), of q _ rest'] g(3) by (simp add: split_on_append)
  qed
  then show ?thesis using g lr
    by (cases "split_on (CHR ''?'') rest")
      (auto simp: parse_url_params_def split_on_append params_fold set_all_def Let_def split: prod.split)
qed


lemma parse_request_line_ok:
  assumes m: "CHR '' '' \<notin> set m" and u: "CHR '' '' \<notin> set u" and v: "CHR '' '' \<notin> set v"
  shows "parse_request_line (m @ CHR '' '' # u @ CHR '' '' # v) r =
    (0, (snd (parse_url_params (r\<lparr>hr_method := m, hr_url := u\<rparr>)))\<lparr>hr_http_version := v\<rparr>)"
proof -
  let ?b = "CHR '' ''"
  let ?s0 = "ss_of (m @ ?b # u @ ?b # v)"
  have r0: "ss_rest ?s0 = m @ ?b # u @ ?b # v" by simp
  note g1 = ss_getline_more [OF ss_of_simps(1) r0 m, of "hr_method r"]
  let ?s1 = "snd (ss_getline ?b (hr_method r) ?s0)"
  note g2 = ss_getline_more [of ?s1 u ?b v "hr_url r", OF g1(2) g1(3) u]
  let ?s2 = "snd (ss_getline ?b (hr_url r) ?s1)"
  have "?b \<notin> set (ss_rest ?s2)" using g2 v by simp
  note g3 = ss_getline_last(1) [OF g2(2) this]
  have url: "fst (parse_url_params r') = 0" for r'
    by (simp add: parse_url_params_def Let_def split: prod.split)
  show ?thesis
    using g1 g2 g3 url [of "r\<lparr>hr_method := m, hr_url := u\<rparr>"]
    by (simp add: parse_request_line_def Let_def case_prod_beta)
qed

subsection \<open>The line loop\<close>

definition line_of :: "http_request \<Rightarrow> string" where
  "line_of r = fst (ss_getline LF [] (hr_req_buff r))"

definition adv :: "http_request \<Rightarrow> http_request" where
  "adv r = r\<lparr>hr_req_buff := snd (ss_getline LF [] (hr_req_buff r))\<rparr>"

lemma adv_simps [simp]:
  "hr_method (adv r) = hr_method r" "hr_headers (adv r) = hr_headers r" "hr_parse_part (adv r) = hr_parse_part r"
  "hr_uri (adv r) = hr_uri r" "hr_url_params (adv r) = hr_url_params r" "hr_http_version (adv r) = hr_http_version r"
  "hr_body_params (adv r) = hr_body_params r" "hr_url (adv r) = hr_url r"
  by (simp_all add: adv_def)

lemma read_loop_adv:
  "ss_good (hr_req_buff r) \<Longrightarrow> read_loop r =
     (if line_of r = [CR] then read_loop ((adv r)\<lparr>hr_parse_part := PARSE_REQ_OVER\<rparr>)
      else if hr_parse_part r = PARSE_REQ_LINE then
        let pr = parse_request_line (line_of r) (adv r) in
        if fst pr \<noteq> 0 \<or> hr_method (snd pr) \<notin> {''POST'', ''GET''} then (Some READ_ERROR, snd pr)
        else read_loop ((snd pr)\<lparr>hr_parse_part := PARSE_REQ_HEAD\<rparr>)
      else if hr_parse_part r = PARSE_REQ_HEAD \<and> line_of r \<noteq> [] then
        let parts = string_split (line_of r) (CHR '':'') [] in
        if length parts < 2 then read_loop (adv r)
        else read_loop ((adv r)\<lparr>hr_headers := smap_set (parts ! 0) (parts ! 1) (hr_headers r)\<rparr>)
      else if hr_parse_part r = PARSE_REQ_BODY \<and> line_of r \<noteq> [] then
        (None, (snd (parse_body (line_of r) (adv r)))\<lparr>hr_parse_part := PARSE_REQ_OVER\<rparr>)
      else read_loop (adv r))"
  by (subst read_loop.simps) (simp add: Let_def line_of_def adv_def)

lemma read_loop_end: "\<not> ss_good (hr_req_buff r) \<Longrightarrow> read_loop r = (None, r)"
  by (simp add: read_loop.simps)

text \<open>Induction over the lines of the buffer.\<close>

lemma line_induct [case_names step]:
  fixes r :: http_request
  assumes "\<And>r :: http_request. (\<And>r' :: http_request. ss_good (hr_req_buff r) \<Longrightarrow> hr_req_buff r' = hr_req_buff (adv r) \<Longrightarrow> P r') \<Longrightarrow> P r"
  shows "P r"
proof (induction "ss_measure (hr_req_buff r)" arbitrary: r rule: less_induct)
  case less
  show ?case
  proof (rule assms)
    fix r' :: http_request
    assume "ss_good (hr_req_buff r)" "hr_req_buff r' = hr_req_buff (adv r)"
    then show "P r'" using ss_getline_measure [of "hr_req_buff r" LF "[]"] by (intro less) (simp add: adv_def)
  qed
qed

text \<open>Once the blank line was seen the remaining lines are skipped.\<close>

lemma read_loop_over:
  "hr_parse_part r = PARSE_REQ_OVER \<Longrightarrow> \<exists>b. read_loop r = (None, r\<lparr>hr_req_buff := b\<rparr>)"
proof (induction r rule: line_induct)
  case (step r)
  show ?case
  proof (cases "ss_good (hr_req_buff r)")
    case True
    have "(adv r)\<lparr>hr_parse_part := PARSE_REQ_OVER\<rparr> = adv r" using step.prems by simp
    from arg_cong [OF this, of read_loop] have "read_loop r = read_loop (adv r)"
      using True step.prems by (simp add: read_loop_adv)
    moreover obtain b where "read_loop (adv r) = (None, (adv r)\<lparr>hr_req_buff := b\<rparr>)"
      using step.IH [OF True, of "adv r"] step.prems by auto
    ultimately show ?thesis by (auto simp: adv_def)
  next
    case False
    then show ?thesis by (intro exI [of _ "hr_req_buff r"]) (simp add: read_loop_end)
  qed
qed

definition header_line :: "string \<times> string \<Rightarrow> string" where
  "header_line kv = fst kv @ CHR '':'' # CHR '' '' # snd kv @ [CR, LF]"

text \<open>What the parser keeps of a header value: up to the first colon, trimmed.\<close>

definition header_value :: "string \<Rightarrow> string" where
  "header_value v = trim (hd (split_on (CHR '':'') v))"

definition header_ok :: "string \<times> string \<Rightarrow> bool" where
  "header_ok kv \<longleftrightarrow> trimmed (fst kv) \<and> CHR '':'' \<notin> set (fst kv) \<and> LF \<notin> set (fst kv) \<and> LF \<notin> set (snd kv)"


lemma line_of_more:
  assumes "ss_good (hr_req_buff r)" "ss_rest (hr_req_buff r) = line @ LF # rest" "LF \<notin> set line"
  shows "line_of r = line" "ss_good (hr_req_buff (adv r))" "ss_rest (hr_req_buff (adv r)) = rest"
  using ss_getline_more [OF assms, of "[]"] by (simp_all add: line_of_def adv_def)

lemma CR_LF_simps [simp]: "CR \<noteq> LF" "LF \<noteq> CR" "isspace CR" "isspace (CHR '' '')" "LF \<noteq> CHR '':''" "LF \<noteq> CHR '' ''" "CR \<noteq> CHR '':''"
  "CHR '':'' \<noteq> CR" "CHR '':'' \<noteq> LF" "CHR '' '' \<noteq> CR" "CHR '' '' \<noteq> LF" "CR \<noteq> CHR '' ''"
  by (simp_all add: CR_def LF_def isspace_def)

lemma trim_Cons_space: "isspace c \<Longrightarrow> trim (c # str) = trim str"
proof (cases "\<forall>x \<in> set str. isspace x")
  case True
  then have "dropWhile isspace (rev str) = []" by simp
  moreover assume "isspace c"
  ultimately show ?thesis using True
    by (simp add: trim_def ltrim_def rtrim_def dropWhile_append del: dropWhile_eq_Nil_conv)
next
  case False
  moreover assume "isspace c"
  ultimately show ?thesis by (auto simp: trim_def ltrim_def rtrim_def dropWhile_append)
qed

lemma trim_snoc_space: "isspace c \<Longrightarrow> trim (str @ [c]) = trim str"
  by (simp add: trim_def rtrim_append_space)

lemma split_header:
  assumes "CHR '':'' \<notin> set k" "trimmed k"
  shows "\<exists>rest. string_split (k @ CHR '':'' # CHR '' '' # v @ [CR]) (CHR '':'') [] = k # header_value v # rest"
proof -
  let ?c = "CHR '':''"
  have "\<exists>rest. map trim (split_on ?c (CHR '' '' # v @ [CR])) = header_value v # rest"
  proof (cases "?c \<in> set v")
    case False
    then have "split_on ?c (CHR '' '' # v @ [CR]) = [CHR '' '' # v @ [CR]]" by (intro split_on_none) auto
    moreover have "trim (CHR '' '' # v @ [CR]) = trim v"
      using trim_snoc_space [of CR "CHR '' '' # v"] by (simp add: trim_Cons_space)
    ultimately show ?thesis using False by (simp add: header_value_def split_on_none)
  next
    case True
    then obtain a b where ab: "v = a @ ?c # b" "?c \<notin> set a" using split_list_first by fastforce
    then have "split_on ?c (CHR '' '' # v @ [CR]) = (CHR '' '' # a) # split_on ?c (b @ [CR])"
      using split_on_append [of ?c "CHR '' '' # a" "b @ [CR]"] by simp
    moreover have "trim (CHR '' '' # a) = trim a" by (simp add: trim_Cons_space)
    ultimately show ?thesis using ab by (simp add: header_value_def split_on_append)
  qed
  then show ?thesis using assms by (auto simp: string_split_eq split_on_append trim_trimmed)
qed

lemma read_loop_header:
  assumes g: "ss_good (hr_req_buff r)" and rest: "ss_rest (hr_req_buff r) = header_line kv @ rest"
    and kv: "header_ok kv" and part: "hr_parse_part r = PARSE_REQ_HEAD"
  shows "read_loop r = read_loop ((adv r)\<lparr>hr_headers := smap_set (fst kv) (header_value (snd kv)) (hr_headers r)\<rparr>)"
    "ss_good (hr_req_buff (adv r))" "ss_rest (hr_req_buff (adv r)) = rest"
proof -
  let ?line = "fst kv @ CHR '':'' # CHR '' '' # snd kv @ [CR]"
  have "ss_rest (hr_req_buff r) = ?line @ LF # rest" "LF \<notin> set ?line"
    using rest kv by (auto simp: header_line_def header_ok_def)
  note l = line_of_more [OF g this]
  show "ss_good (hr_req_buff (adv r))" "ss_rest (hr_req_buff (adv r)) = rest" using l by simp_all
  obtain more where "string_split ?line (CHR '':'') [] = fst kv # header_value (snd kv) # more"
    using split_header [of "fst kv" "snd kv"] kv by (auto simp: header_ok_def)
  moreover have "?line \<noteq> [CR]" by (cases "fst kv") auto
  ultimately show "read_loop r = read_loop ((adv r)\<lparr>hr_headers := smap_set (fst kv) (header_value (snd kv)) (hr_headers r)\<rparr>)"
    using l part by (simp add: read_loop_adv [OF g] Let_def)
qed

definition kept_headers :: "(string \<times> string) list \<Rightarrow> (string \<times> string) list" where
  "kept_headers hs = map (\<lambda>(k, v). (k, header_value v)) hs"

lemma read_loop_headers:
  "ss_good (hr_req_buff r) \<Longrightarrow> ss_rest (hr_req_buff r) = concat (map header_line hs) @ [CR, LF] \<Longrightarrow>
   list_all header_ok hs \<Longrightarrow> hr_parse_part r = PARSE_REQ_HEAD \<Longrightarrow>
   \<exists>b. read_loop r = (None, r\<lparr>hr_headers := set_all (kept_headers hs) (hr_headers r),
                              hr_parse_part := PARSE_REQ_OVER, hr_req_buff := b\<rparr>)"
proof (induction hs arbitrary: r)
  case Nil
  have "ss_rest (hr_req_buff r) = [CR] @ LF # []" "LF \<notin> set [CR]" using Nil by simp_all
  note l = line_of_more [OF Nil.prems(1) this]
  have "read_loop r = read_loop ((adv r)\<lparr>hr_parse_part := PARSE_REQ_OVER\<rparr>)"
    using l Nil.prems by (simp add: read_loop_adv)
  moreover obtain b where "read_loop ((adv r)\<lparr>hr_parse_part := PARSE_REQ_OVER\<rparr>) =
      (None, (adv r)\<lparr>hr_parse_part := PARSE_REQ_OVER, hr_req_buff := b\<rparr>)"
    using read_loop_over [of "(adv r)\<lparr>hr_parse_part := PARSE_REQ_OVER\<rparr>"] by auto
  ultimately show ?case by (auto simp: adv_def set_all_def kept_headers_def)
next
  case (Cons kv hs)
  have "ss_rest (hr_req_buff r) = header_line kv @ concat (map header_line hs) @ [CR, LF]" "header_ok kv"
    using Cons.prems by simp_all
  note h = read_loop_header [OF Cons.prems(1) this Cons.prems(4)]
  let ?r = "(adv r)\<lparr>hr_headers := smap_set (fst kv) (header_value (snd kv)) (hr_headers r)\<rparr>"
  obtain b where "read_loop ?r = (None, ?r\<lparr>hr_headers := set_all (kept_headers hs) (hr_headers ?r),
      hr_parse_part := PARSE_REQ_OVER, hr_req_buff := b\<rparr>)"
    using Cons.IH [of ?r] h Cons.prems by auto
  then show ?case using h(1) by (auto simp: adv_def set_all_def kept_headers_def case_prod_beta)
qed


subsection \<open>Chunks\<close>

text \<open>The check for the blank line at the end of what was received.\<close>

definition ends_blank :: "string \<Rightarrow> bool" where
  "ends_blank str \<longleftrightarrow> 4 \<le> length str \<and> drop (length str - 4) str = [CR, LF, CR, LF]"

lemma is_read_over_eq:
  assumes "ss_good (hr_req_buff r)" "ss_buf (hr_req_buff r) = str" "4 \<le> length str"
  shows "fst (is_read_over r) = ends_blank str"
    "ends_blank str \<Longrightarrow> snd (is_read_over r) = r\<lparr>hr_req_buff := ss_of str\<rparr>"
    "\<exists>b. snd (is_read_over r) = r\<lparr>hr_req_buff := b\<rparr> \<and> ss_good b \<and> ss_buf b = str"
  using assms
  by (auto simp: is_read_over_def ss_seekg_def ss_readsome_def ss_good_def ss_rest_def ends_blank_def ss_of_def
      Let_def nat_diff_distrib' split: prod.splits)

text \<open>A request that received \<open>str\<close> so far without seeing its end.\<close>

definition received :: "string \<Rightarrow> http_request \<Rightarrow> bool" where
  "received str r \<longleftrightarrow> (\<exists>b. r = HttpRequest\<lparr>hr_total_req_size := int (length str), hr_req_buff := b\<rparr> \<and>
     ss_good b \<and> ss_buf b = str)"

lemma received_init: "received [] HttpRequest"
  unfolding received_def by (intro exI [of _ "ss_of []"]) (simp add: HttpRequest_def)

lemma OnReadable_more:
  assumes "received str r" "int (length (str @ c)) \<le> MAX_REQUEST_SIZE" "\<not> ends_blank (str @ c)"
  shows "fst (OnReadable c r) = READ_CONTINUE" "received (str @ c) (snd (OnReadable c r))"
proof -
  from assms(1) obtain b where b: "r = HttpRequest\<lparr>hr_total_req_size := int (length str), hr_req_buff := b\<rparr>"
    "ss_good b" "ss_buf b = str" by (auto simp: received_def)
  let ?r = "HttpRequest\<lparr>hr_total_req_size := int (length (str @ c)), hr_req_buff := b\<lparr>ss_buf := str @ c\<rparr>\<rparr>"
  have g: "ss_good (b\<lparr>ss_buf := str @ c\<rparr>)" using b by (simp add: ss_good_def)
  have "fst (OnReadable c r) = READ_CONTINUE \<and> received (str @ c) (snd (OnReadable c r))"
  proof (cases "length (str @ c) < 4")
    case True
    with assms(2) b g show ?thesis by (auto simp: OnReadable_def ss_write_def received_def)
  next
    case False
    note o = is_read_over_eq [of ?r "str @ c"]
    from o(3) g False obtain b' where
      "snd (is_read_over ?r) = ?r\<lparr>hr_req_buff := b'\<rparr>" "ss_good b'" "ss_buf b' = str @ c" by auto
    with assms(2,3) b g False o(1) show ?thesis
      by (auto simp: OnReadable_def ss_write_def received_def case_prod_beta)
  qed
  then show "fst (OnReadable c r) = READ_CONTINUE" "received (str @ c) (snd (OnReadable c r))" by auto
qed

lemma OnReadable_last:
  assumes "received str r" "int (length (str @ c)) \<le> MAX_REQUEST_SIZE" "ends_blank (str @ c)"
  shows "OnReadable c r =
    (case read_loop (HttpRequest\<lparr>hr_total_req_size := int (length (str @ c)), hr_req_buff := ss_of (str @ c)\<rparr>) of
       (Some st, r4) \<Rightarrow> (st, r4)
     | (None, r4) \<Rightarrow> if hr_parse_part r4 \<noteq> PARSE_REQ_OVER then (READ_CONTINUE, r4) else (READ_OVER, r4))"
proof -
  from assms(1) obtain b where b: "r = HttpRequest\<lparr>hr_total_req_size := int (length str), hr_req_buff := b\<rparr>"
    "ss_good b" "ss_buf b = str" by (auto simp: received_def)
  let ?r = "HttpRequest\<lparr>hr_total_req_size := int (length (str @ c)), hr_req_buff := b\<lparr>ss_buf := str @ c\<rparr>\<rparr>"
  have g: "ss_good (b\<lparr>ss_buf := str @ c\<rparr>)" using b by (simp add: ss_good_def)
  have len: "4 \<le> length (str @ c)" using assms(3) by (simp add: ends_blank_def)
  note o = is_read_over_eq(1,2) [of ?r "str @ c"]
  have "is_read_over ?r = (True, HttpRequest\<lparr>hr_total_req_size := int (length (str @ c)), hr_req_buff := ss_of (str @ c)\<rparr>)"
    using o g len assms(3) by (simp add: prod_eq_iff)
  then show ?thesis using assms(2) b len by (simp add: OnReadable_def ss_write_def)
qed

fun feed :: "string list \<Rightarrow> http_request \<Rightarrow> read_status list \<times> http_request" where
  "feed [] r = ([], r)"
| "feed (c # cs) r =
     (let (st, r1) = OnReadable c r; (sts, r2) = feed cs r1 in (st # sts, r2))"

lemma feed_received:
  assumes "received str r" "cs \<noteq> []" "int (length (str @ concat cs)) \<le> MAX_REQUEST_SIZE"
    "ends_blank (str @ concat cs)" "\<forall>k < length cs. 0 < k \<longrightarrow> \<not> ends_blank (str @ concat (take k cs))"
  shows "feed cs r = (replicate (length cs - 1) READ_CONTINUE @ [fst (OnReadable (str @ concat cs) HttpRequest)],
                      snd (OnReadable (str @ concat cs) HttpRequest))"
  using assms
proof (induction cs arbitrary: str r)
  case (Cons c cs)
  show ?case
  proof (cases "cs = []")
    case True
    with Cons.prems have "OnReadable c r = OnReadable (str @ c) HttpRequest"
      using OnReadable_last [of str r c] OnReadable_last [OF received_init, of "str @ c"] by simp
    with True show ?thesis by (simp add: case_prod_beta)
  next
    case False
    have "\<not> ends_blank (str @ c)" using Cons.prems(5) False by (auto dest!: spec [of _ 1])
    then have c: "fst (OnReadable c r) = READ_CONTINUE" "received (str @ c) (snd (OnReadable c r))"
      using OnReadable_more [of str r c] Cons.prems by auto
    have "\<forall>k < length cs. 0 < k \<longrightarrow> \<not> ends_blank ((str @ c) @ concat (take k cs))"
    proof (intro allI impI)
      fix k
      assume "k < length cs" "0 < k"
      then show "\<not> ends_blank ((str @ c) @ concat (take k cs))" using Cons.prems(5) by (auto dest!: spec [of _ "Suc k"])
    qed
    from Cons.IH [OF c(2) False _ _ this] Cons.prems c(1) False show ?thesis
      by (cases cs) (simp_all add: case_prod_beta)
  qed
qed simp


subsection \<open>Well-formed requests\<close>

definition query_str :: "(string \<times> string) list \<Rightarrow> string" where
  "query_str kvs = join_on (CHR ''&'') (map (\<lambda>(k, v). k @ CHR ''='' # v) kvs)"

definition url_str :: "string \<Rightarrow> (string \<times> string) list \<Rightarrow> string" where
  "url_str uri kvs = (if kvs = [] then uri else uri @ CHR ''?'' # query_str kvs)"

definition request_str :: "string \<Rightarrow> string \<Rightarrow> (string \<times> string) list \<Rightarrow> string \<Rightarrow> (string \<times> string) list \<Rightarrow> string" where
  "request_str m uri kvs version hs =
     m @ CHR '' '' # url_str uri kvs @ CHR '' '' # version @ [CR, LF] @ concat (map header_line hs) @ [CR, LF]"

definition url_word :: "string \<Rightarrow> bool" where
  "url_word w \<longleftrightarrow> CHR ''&'' \<notin> set w \<and> CHR ''='' \<notin> set w \<and> CHR ''?'' \<notin> set w \<and> CHR '' '' \<notin> set w \<and> LF \<notin> set w"

definition version_ok :: "string \<Rightarrow> bool" where
  "version_ok v \<longleftrightarrow> CHR '' '' \<notin> set v \<and> LF \<notin> set v"

lemma kv_pieces_query:
  assumes "kvs \<noteq> []" "\<forall>(k, v) \<in> set kvs. url_word k \<and> url_word v"
  shows "kv_pieces (query_str kvs) = kvs"
proof -
  have "split_on (CHR ''&'') (query_str kvs) = map (\<lambda>(k, v). k @ CHR ''='' # v) kvs"
    unfolding query_str_def using assms by (intro split_on_join) (auto simp: url_word_def)
  moreover have "pair_up (split_on (CHR ''='') (k @ CHR ''='' # v)) = [(k, v)]" if "(k, v) \<in> set kvs" for k v
    using assms(2) that by (auto simp: url_word_def split_on_append split_on_none)
  ultimately have "kv_pieces (query_str kvs) = concat (map (\<lambda>kv. [kv]) kvs)"
    unfolding kv_pieces_def by (intro arg_cong [where f = concat]) (auto simp: case_prod_beta)
  then show ?thesis by simp
qed

lemma set_join_on: "set (join_on d xs) \<subseteq> insert d (\<Union> (set ` set xs))"
  by (induction d xs rule: join_on.induct) auto

lemma query_str_chars:
  assumes "\<forall>(k, v) \<in> set kvs. url_word k \<and> url_word v" "c \<in> set (query_str kvs)"
  shows "c \<notin> {CHR ''?'', CHR '' '', LF}"
  using assms set_join_on [of "CHR ''&''" "map (\<lambda>(k, v). k @ CHR ''='' # v) kvs"]
  by (fastforce simp: query_str_def url_word_def LF_def)

lemma url_str_chars:
  assumes "url_word uri" "\<forall>(k, v) \<in> set kvs. url_word k \<and> url_word v"
  shows "CHR '' '' \<notin> set (url_str uri kvs)" "LF \<notin> set (url_str uri kvs)"
  using assms query_str_chars [OF assms(2)] by (auto simp: url_str_def url_word_def LF_def)

lemma parse_url_params_url_str:
  assumes "url_word uri" "\<forall>(k, v) \<in> set kvs. url_word k \<and> url_word v" "hr_url r = url_str uri kvs"
  shows "snd (parse_url_params r) = r\<lparr>hr_uri := uri, hr_url_params := set_all kvs (hr_url_params r)\<rparr>"
proof (cases "kvs = []")
  case True
  with assms show ?thesis
    by (simp add: parse_url_params_eq url_str_def url_word_def split_on_none set_all_def)
next
  case False
  have "CHR ''?'' \<notin> set (query_str kvs)" using query_str_chars [OF assms(2)] by auto
  with assms False show ?thesis
    by (simp add: parse_url_params_eq url_str_def url_word_def split_on_append split_on_none kv_pieces_query)
qed

lemma ends_blank_append: "ends_blank (str @ [CR, LF, CR, LF])"
  by (simp add: ends_blank_def)

lemma request_ends_blank: "ends_blank (request_str m uri kvs version hs)"
proof -
  have "\<exists>str. [CR, LF] @ concat (map header_line hs) @ [CR, LF] = str @ [CR, LF, CR, LF]"
  proof (cases hs rule: rev_cases)
    case (snoc hs' kv)
    then show ?thesis
      by (intro exI [of _ "[CR, LF] @ concat (map header_line hs') @ fst kv @ CHR '':'' # CHR '' '' # snd kv"])
        (simp add: header_line_def)
  qed simp
  then obtain str where "[CR, LF] @ concat (map header_line hs) @ [CR, LF] = str @ [CR, LF, CR, LF]" by blast
  then have "request_str m uri kvs version hs
      = (m @ CHR '' '' # url_str uri kvs @ CHR '' '' # version @ str) @ [CR, LF, CR, LF]"
    by (simp add: request_str_def)
  then show ?thesis using ends_blank_append by metis
qed

lemma request_parsed:
  assumes m: "m \<in> {''GET'', ''POST''}" and uri: "url_word uri"
    and kvs: "\<forall>(k, v) \<in> set kvs. url_word k \<and> url_word v" and v: "version_ok version"
    and hs: "list_all header_ok hs" and len: "int (length (request_str m uri kvs version hs)) \<le> MAX_REQUEST_SIZE"
  shows "\<exists>b. OnReadable (request_str m uri kvs version hs) HttpRequest =
    (READ_OVER, HttpRequest\<lparr>hr_total_req_size := int (length (request_str m uri kvs version hs)),
       hr_method := m, hr_url := url_str uri kvs, hr_uri := uri, hr_url_params := set_all kvs [],
       hr_http_version := version @ [CR], hr_headers := set_all (kept_headers hs) [],
       hr_parse_part := PARSE_REQ_OVER, hr_req_buff := b\<rparr>)"
proof -
  let ?T = "request_str m uri kvs version hs"
  let ?r = "HttpRequest\<lparr>hr_total_req_size := int (length ?T), hr_req_buff := ss_of ?T\<rparr>"
  let ?line = "m @ CHR '' '' # url_str uri kvs @ CHR '' '' # version @ [CR]"
  have buff: "ss_good (hr_req_buff ?r)" by simp
  have rest: "ss_rest (hr_req_buff ?r) = ?line @ LF # concat (map header_line hs) @ [CR, LF]"
    by (simp add: request_str_def)
  have "LF \<notin> set m" "CHR '' '' \<notin> set m" using m by (auto simp: LF_def)
  with v url_str_chars [OF uri kvs] have nolf: "LF \<notin> set ?line" and nosp: "CHR '' '' \<notin> set m" "CHR '' '' \<notin> set (version @ [CR])"
    by (auto simp: version_ok_def)
  note l = line_of_more [OF buff rest nolf]
  note pl = parse_request_line_ok [OF nosp(1) url_str_chars(1) [OF uri kvs] nosp(2), of "adv ?r"]
  let ?p = "(adv ?r)\<lparr>hr_method := m, hr_url := url_str uri kvs, hr_uri := uri,
      hr_url_params := set_all kvs [], hr_http_version := version @ [CR]\<rparr>"
  have p: "parse_request_line ?line (adv ?r) = (0, ?p)"
    using pl parse_url_params_url_str [OF uri kvs, of "(adv ?r)\<lparr>hr_method := m, hr_url := url_str uri kvs\<rparr>"]
    by (simp add: adv_def HttpRequest_def)
  have "?line \<noteq> [CR]" by (cases m) auto
  then have "read_loop ?r = read_loop (?p\<lparr>hr_parse_part := PARSE_REQ_HEAD\<rparr>)"
    using read_loop_adv [OF buff] l(1) p m by (auto simp: Let_def HttpRequest_def)
  moreover obtain b where "read_loop (?p\<lparr>hr_parse_part := PARSE_REQ_HEAD\<rparr>) =
      (None, ?p\<lparr>hr_parse_part := PARSE_REQ_HEAD, hr_headers := set_all (kept_headers hs) [],
        hr_parse_part := PARSE_REQ_OVER, hr_req_buff := b\<rparr>)"
    using read_loop_headers [of "?p\<lparr>hr_parse_part := PARSE_REQ_HEAD\<rparr>" hs] l hs
    by (auto simp: adv_def HttpRequest_def)
  ultimately have "read_loop ?r = (None, ?p\<lparr>hr_parse_part := PARSE_REQ_HEAD, hr_headers := set_all (kept_headers hs) [],
        hr_parse_part := PARSE_REQ_OVER, hr_req_buff := b\<rparr>)" by simp
  then show ?thesis
    using OnReadable_last [OF received_init _ _, of ?T] len request_ends_blank
    by (intro exI [of _ b]) (simp add: adv_def HttpRequest_def)
qed


subsection \<open>Bodies\<close>

definition no_body :: "http_request \<Rightarrow> bool" where
  "no_body r \<longleftrightarrow> hr_body_params r = [] \<and> hr_parse_part r \<noteq> PARSE_REQ_BODY"

lemma parse_request_line_keeps:
  "hr_body_params (snd (parse_request_line line r)) = hr_body_params r"
  "hr_parse_part (snd (parse_request_line line r)) = hr_parse_part r"
  by (simp_all add: parse_request_line_def parse_url_params_def Let_def split: prod.split)

lemma read_loop_no_body: "no_body r \<Longrightarrow> no_body (snd (read_loop r))"
proof (induction r rule: line_induct)
  case (step r)
  show ?case
  proof (cases "ss_good (hr_req_buff r)")
    case True
    have IH: "no_body r' \<Longrightarrow> hr_req_buff r' = hr_req_buff (adv r) \<Longrightarrow> no_body (snd (read_loop r'))" for r'
      using step.IH [OF True] by blast
    show ?thesis unfolding read_loop_adv [OF True] Let_def
      using step.prems by (auto simp: no_body_def parse_request_line_keeps parse_request_line_buff intro!: IH [unfolded no_body_def])
  qed (use step.prems in \<open>simp add: read_loop_end\<close>)
qed

lemma is_read_over_keeps: "no_body (snd (is_read_over r)) = no_body r"
  by (simp add: is_read_over_def no_body_def Let_def case_prod_beta)

lemma OnReadable_no_body: "no_body r \<Longrightarrow> no_body (snd (OnReadable c r))"
proof -
  assume r: "no_body r"
  let ?r1 = "r\<lparr>hr_total_req_size := hr_total_req_size r + int (length c)\<rparr>"
  let ?r2 = "?r1\<lparr>hr_req_buff := ss_write c (hr_req_buff ?r1)\<rparr>"
  have "no_body ?r1" "no_body ?r2" using r by (simp_all add: no_body_def)
  then have "no_body (snd (read_loop (snd (is_read_over ?r2))))" "no_body (snd (is_read_over ?r2))"
    by (simp_all add: read_loop_no_body is_read_over_keeps)
  with \<open>no_body ?r1\<close> \<open>no_body ?r2\<close> show ?thesis
    by (auto simp: OnReadable_def Let_def case_prod_beta split: option.splits prod.splits)
qed

subsection \<open>Properties\<close>

text \<open>
  (C3) A well-formed request is parsed back: method, path, query parameters and headers come out as
  they were printed (later duplicates winning, a header value only up to its first colon), and
  the status is \<open>READ_OVER\<close>.  The version keeps the carriage return of its line.
\<close>

theorem http_request_roundtrip:
  assumes "m \<in> {''GET'', ''POST''}" "url_word uri" "\<forall>(k, v) \<in> set kvs. url_word k \<and> url_word v"
    "version_ok version" "list_all header_ok hs"
    "int (length (request_str m uri kvs version hs)) \<le> MAX_REQUEST_SIZE"
  shows "\<exists>r. OnReadable (request_str m uri kvs version hs) HttpRequest = (READ_OVER, r) \<and>
     hr_method r = m \<and> hr_uri r = uri \<and> map_of (hr_url_params r) = map_of (rev kvs) \<and>
     map_of (hr_headers r) = map_of (rev (kept_headers hs)) \<and> hr_http_version r = version @ [CR] \<and>
     hr_body_params r = []"
  using request_parsed [OF assms] by (auto simp: map_of_set_all HttpRequest_def)

theorem http_request_roundtrip_witness:
  "\<exists>r. OnReadable (request_str ''GET'' ''/foo'' [(''name'', ''bar''), (''x'', '''')] ''HTTP/1.1''
          [(''Host'', ''localhost:8080''), (''Connection'', ''keep-alive'')]) HttpRequest = (READ_OVER, r) \<and>
     hr_uri r = ''/foo'' \<and> map_of (hr_url_params r) ''name'' = Some ''bar'' \<and>
     map_of (hr_headers r) ''Host'' = Some ''localhost'' \<and> map_of (hr_headers r) ''Connection'' = Some ''keep-alive''"
proof -
  let ?kvs = "[(''name'', ''bar''), (''x'', '''')]"
  let ?hs = "[(''Host'', ''localhost:8080''), (''Connection'', ''keep-alive'')]"
  have hs: "list_all header_ok ?hs" by (simp add: header_ok_def trimmed_def isspace_def LF_def)
  have v: "version_ok ''HTTP/1.1''" by (simp add: version_ok_def LF_def)
  have "split_on (CHR '':'') (''localhost'' @ CHR '':'' # ''8080'') = [''localhost'', ''8080'']"
    by (subst split_on_append) (simp_all add: split_on_none)
  then have kept: "kept_headers ?hs = [(''Host'', ''localhost''), (''Connection'', ''keep-alive'')]"
    by (simp add: kept_headers_def header_value_def split_on_none trim_trimmed trimmed_def isspace_def)
  have uw: "url_word ''/foo''" "\<forall>(k, v) \<in> set ?kvs. url_word k \<and> url_word v" by (simp_all add: url_word_def LF_def)
  have len: "int (length (request_str ''GET'' ''/foo'' ?kvs ''HTTP/1.1'' ?hs)) \<le> MAX_REQUEST_SIZE"
    by (simp add: request_str_def url_str_def query_str_def header_line_def MAX_REQUEST_SIZE_def)
  from http_request_roundtrip [OF _ uw v hs len] kept show ?thesis by auto
qed

text \<open>
  (C4) The parse does not depend on how the network cut the request: as long as no chunk before the
  last happens to end at a blank line, all but the last chunk answer \<open>READ_CONTINUE\<close>, and the last
  gives the status and the request object that the whole text in one chunk gives.
\<close>

theorem http_request_chunking:
  assumes "cs \<noteq> []" "int (length (concat cs)) \<le> MAX_REQUEST_SIZE" "ends_blank (concat cs)"
    "\<forall>k < length cs. 0 < k \<longrightarrow> \<not> ends_blank (concat (take k cs))"
  shows "feed cs HttpRequest = (replicate (length cs - 1) READ_CONTINUE @ [fst (OnReadable (concat cs) HttpRequest)],
           snd (OnReadable (concat cs) HttpRequest))"
  using feed_received [OF received_init assms(1)] assms(2-4) by simp

theorem http_request_chunking_witness:
  "\<exists>r. feed [''GET /a HT'', ''TP/1.1'' @ [CR], [LF, CR, LF]] HttpRequest = ([READ_CONTINUE, READ_CONTINUE, READ_OVER], r) \<and>
     hr_uri r = ''/a''"
proof -
  let ?cs = "[''GET /a HT'', ''TP/1.1'' @ [CR], [LF, CR, LF]]"
  have req: "concat ?cs = request_str ''GET'' ''/a'' [] ''HTTP/1.1'' []"
    by (simp add: request_str_def url_str_def)
  have len: "int (length (request_str ''GET'' ''/a'' [] ''HTTP/1.1'' [])) \<le> MAX_REQUEST_SIZE"
    by (simp add: request_str_def url_str_def MAX_REQUEST_SIZE_def)
  have "\<forall>k < length ?cs. 0 < k \<longrightarrow> \<not> ends_blank (concat (take k ?cs))"
    by (auto simp: ends_blank_def less_Suc_eq numeral_3_eq_3 CR_def LF_def)
  moreover have "ends_blank (concat ?cs)" unfolding req by (rule request_ends_blank)
  ultimately have "feed ?cs HttpRequest = (replicate (length ?cs - 1) READ_CONTINUE @
      [fst (OnReadable (concat ?cs) HttpRequest)], snd (OnReadable (concat ?cs) HttpRequest))"
    using len unfolding req [symmetric] by (intro http_request_chunking) simp_all
  moreover have "\<exists>r. OnReadable (concat ?cs) HttpRequest = (READ_OVER, r) \<and> hr_uri r = ''/a''"
    unfolding req using request_parsed [of "''GET''" "''/a''" "[]" "''HTTP/1.1''" "[]"] len
    by (auto simp: url_word_def version_ok_def LF_def)
  ultimately show ?thesis by (auto simp: numeral_2_eq_2)
qed

text \<open>
  (C33) A request body is never parsed, whatever is sent: the phase \<open>PARSE_REQ_BODY\<close> is never entered
  (both branches of the test for POST set \<open>PARSE_REQ_OVER\<close>) and \<open>body_params\<close> stays empty.
\<close>

theorem http_body_never_parsed:
  "hr_body_params (snd (feed cs HttpRequest)) = [] \<and> hr_parse_part (snd (feed cs HttpRequest)) \<noteq> PARSE_REQ_BODY"
proof -
  have "no_body r \<Longrightarrow> no_body (snd (feed cs r))" for r
    by (induction cs arbitrary: r) (simp_all add: OnReadable_no_body case_prod_beta)
  from this [of HttpRequest] show ?thesis by (simp add: no_body_def HttpRequest_def)
qed

end
