(* ===== verification/Http_Response.thy ===== *)
theory Http_Response
  imports Http_Request "HOL-Library.Sublist"
begin

text \<open>
  Responses and the HTTP event handler: \<^verbatim>\<open>src/http/http_server/http_response.h\<close>, \<^verbatim>\<open>.cpp\<close>,
  \<^verbatim>\<open>http_epoll_event_handler.h\<close> and \<^verbatim>\<open>.cpp\<close>.  The result of the system call \<open>send\<close> is an
  argument; what it accepted is part of the result.  The request handlers registered by the
  application are functions on request and response.
\<close>

subsection \<open>Responses\<close>

datatype write_status = WRITE_ERROR | WRITE_OVER | WRITE_ALIVE | WRITE_CONTINUE

record status_line =
  sl_stauts_code :: int
  sl_msg :: string

definition STATUS_OK :: status_line where
  "STATUS_OK = \<lparr> sl_stauts_code = 200, sl_msg = ''OK'' \<rparr>"

definition STATUS_NOT_FOUND :: status_line where
  "STATUS_NOT_FOUND = \<lparr> sl_stauts_code = 404, sl_msg = ''Not Found'' \<rparr>"

definition STATUS_METHOD_NOT_ALLOWED :: status_line where
  "STATUS_METHOD_NOT_ALLOWED = \<lparr> sl_stauts_code = 405, sl_msg = ''Method Not Allowed'' \<rparr>"

record http_response =
  rs_status_line :: status_line
  rs_headers :: "string smap"
  rs_body :: string
  rs_is_writted :: bool
  rs_resp_buff :: stringstream

definition HttpResponse :: http_response where
  "HttpResponse = \<lparr> rs_status_line = STATUS_OK, rs_headers = [], rs_body = [], rs_is_writted = False,
     rs_resp_buff = ss_of [] \<rparr>"

definition resp_OnWriteable :: "bool \<Rightarrow> nat \<Rightarrow> http_response \<Rightarrow> write_status \<times> string \<times> http_response" where
  "resp_OnWriteable is_keepalive buffer_size r =
     (let (buffer, s) = ss_read buffer_size (rs_resp_buff r);
          r1 = r\<lparr>rs_resp_buff := s\<rparr>
      in if \<not> ss_eof s then (WRITE_CONTINUE, buffer, r1)
         else if is_keepalive then (WRITE_ALIVE, buffer, r1)
         else (WRITE_OVER, buffer, r1))"

definition CRLF :: string where
  "CRLF = [CR, LF]"

definition server_line :: string where "server_line = ''Server: http_server/0.1'' @ CRLF"
definition content_type_line :: string where
  "content_type_line = ''Content-Type: application/json; charset=UTF-8'' @ CRLF"
definition content_length_line :: "nat \<Rightarrow> string" where
  "content_length_line n = ''Content-Length: '' @ nat_str n @ CRLF"
definition connection_line :: "bool \<Rightarrow> string" where
  "connection_line is_keepalive = (if is_keepalive then ''COnnection: Keep-Alive'' @ CRLF else ''Connection: close'' @ CRLF)"
definition header_entry :: "string \<times> string \<Rightarrow> string" where
  "header_entry kv = fst kv @ '': '' @ snd kv @ CRLF"
definition status_text :: "string \<Rightarrow> status_line \<Rightarrow> string" where
  "status_text http_version sl = http_version @ '' '' @ int_str (sl_stauts_code sl) @ '' '' @ sl_msg sl @ CRLF"

definition ExportBuffer2Response :: "string \<Rightarrow> bool \<Rightarrow> http_response \<Rightarrow> int \<times> http_response" where
  "ExportBuffer2Response http_version is_keepalive r =
     (let s1 = ss_write (status_text http_version (rs_status_line r)) (rs_resp_buff r);
          s2 = ss_write server_line s1;
          s3 = (if map_of (rs_headers r) ''Content-Type'' = None then ss_write content_type_line s2 else s2);
          s4 = ss_write (content_length_line (length (rs_body r))) s3;
          s5 = ss_write (connection_line is_keepalive) s4;
          s6 = foldl (\<lambda>s kv. ss_write (header_entry kv) s) s5 (rs_headers r);
          s7 = ss_write CRLF s6;
          s8 = ss_write (rs_body r) s7
      in (0, r\<lparr>rs_resp_buff := s8\<rparr>))"

definition Rollback :: "int \<Rightarrow> http_response \<Rightarrow> int \<times> http_response" where
  "Rollback sz r =
     (let s1 = (if ss_eof (rs_resp_buff r) then ss_clear (rs_resp_buff r) else rs_resp_buff r);
          s2 = ss_seekg (ss_tellg s1 - sz) s1
      in (if ss_good s2 then 0 else - 1, r\<lparr>rs_resp_buff := s2\<rparr>))"

subsection \<open>Connections\<close>

record http_context =
  hc_req :: http_request
  hc_resp :: http_response
  hc_fd :: int

definition HttpContext :: "int \<Rightarrow> http_context" where
  "HttpContext fd = \<lparr> hc_req = HttpRequest, hc_resp = HttpResponse, hc_fd = fd \<rparr>"

definition Clear :: "http_context \<Rightarrow> http_context" where
  "Clear c = c\<lparr>hc_req := HttpRequest, hc_resp := HttpResponse\<rparr>"

type_synonym http_handler = "http_request \<Rightarrow> http_response \<Rightarrow> http_request \<times> http_response"

definition handle_http_request ::
    "(string \<Rightarrow> http_handler option) \<Rightarrow> http_request \<Rightarrow> http_response \<Rightarrow> http_request \<times> http_response" where
  "handle_http_request uri2handler req resp =
     (case uri2handler (hr_uri req) of
        None \<Rightarrow> (req, resp\<lparr>rs_status_line := STATUS_NOT_FOUND, rs_body := sl_msg STATUS_NOT_FOUND\<rparr>)
      | Some handler \<Rightarrow>
          let resp1 = (if hr_method req \<noteq> ''POST'' \<and> hr_method req \<noteq> ''GET''
                       then resp\<lparr>rs_status_line := STATUS_METHOD_NOT_ALLOWED, rs_body := sl_msg STATUS_METHOD_NOT_ALLOWED\<rparr>
                       else resp)
          in handler req resp1)"

definition handler_OnReadable ::
    "(string \<Rightarrow> http_handler option) \<Rightarrow> string \<Rightarrow> http_context \<Rightarrow> read_status \<times> http_context" where
  "handler_OnReadable uri2handler read_buffer c =
     (let (read_ret, req) = OnReadable read_buffer (hc_req c) in
      if read_ret \<noteq> READ_OVER then (read_ret, c\<lparr>hc_req := req\<rparr>)
      else let (req', resp') = handle_http_request uri2handler req (hc_resp c) in
           (READ_OVER, c\<lparr>hc_req := req', hc_resp := resp'\<rparr>))"

definition EPOLL_SOCKET_WRITE_BUFFER_SIZE :: nat where
  "EPOLL_SOCKET_WRITE_BUFFER_SIZE = 4096"

text \<open>
  \<open>OnWriteable\<close> with \<open>send\<close> given as a function of the bytes offered: how many it accepted, or a
  negative number.  The second component is what was accepted.
\<close>

definition handler_OnWriteable ::
    "(string \<Rightarrow> int) \<Rightarrow> http_context \<Rightarrow> write_status \<times> string \<times> http_context" where
  "handler_OnWriteable send c =
     (let (conn, headers) = smap_index ''Connection'' [] (hr_headers (hc_req c));
          req = (hc_req c)\<lparr>hr_headers := headers\<rparr>;
          is_keepalive = (conn = ''keep-alive'');
          resp1 = (if \<not> rs_is_writted (hc_resp c)
                   then (snd (ExportBuffer2Response (hr_http_version req) is_keepalive (hc_resp c)))\<lparr>rs_is_writted := True\<rparr>
                   else hc_resp c);
          (write_ret, buffer, resp2) = resp_OnWriteable is_keepalive EPOLL_SOCKET_WRITE_BUFFER_SIZE resp1;
          n_write = send buffer
      in if n_write < 0 then (WRITE_ERROR, [], c\<lparr>hc_req := req, hc_resp := resp2\<rparr>)
         else
           let resp3 = (if n_write < int (length buffer)
                        then snd (Rollback (int (length buffer) - n_write) resp2) else resp2);
               c1 = c\<lparr>hc_req := req, hc_resp := resp3\<rparr>;
               c2 = (if write_ret = WRITE_ALIVE \<and> n_write > 0 then Clear c1 else c1)
           in (write_ret, take (nat n_write) buffer, c2))"

subsection \<open>The text of a response\<close>

definition response_str :: "string \<Rightarrow> bool \<Rightarrow> http_response \<Rightarrow> string" where
  "response_str http_version is_keepalive r =
     status_text http_version (rs_status_line r) @ server_line @
     (if map_of (rs_headers r) ''Content-Type'' = None then content_type_line else []) @
     content_length_line (length (rs_body r)) @ connection_line is_keepalive @
     concat (map header_entry (rs_headers r)) @ CRLF @ rs_body r"

lemma ss_write_good: "ss_good s \<Longrightarrow> ss_write str s = s\<lparr>ss_buf := ss_buf s @ str\<rparr>"
  by (simp add: ss_write_def)

lemma ss_good_buf [simp]: "ss_good (s\<lparr>ss_buf := b\<rparr>) = ss_good s"
  by (simp add: ss_good_def)

lemma foldl_ss_write:
  "ss_good s \<Longrightarrow> foldl (\<lambda>s kv. ss_write (f kv) s) s kvs = s\<lparr>ss_buf := ss_buf s @ concat (map f kvs)\<rparr>"
  by (induction kvs arbitrary: s) (auto simp: ss_write_good)

lemma Export_eq:
  assumes "ss_good (rs_resp_buff r)"
  shows "ExportBuffer2Response v ka r =
    (0, r\<lparr>rs_resp_buff := (rs_resp_buff r)\<lparr>ss_buf := ss_buf (rs_resp_buff r) @ response_str v ka r\<rparr>\<rparr>)"
  using assms by (simp add: ExportBuffer2Response_def response_str_def Let_def ss_write_good foldl_ss_write)

subsection \<open>Sending a response\<close>

text \<open>A connection that has sent the first \<open>p\<close> bytes of the response text \<open>txt\<close>.\<close>

definition sending :: "string \<Rightarrow> nat \<Rightarrow> http_context \<Rightarrow> bool" where
  "sending txt p c \<longleftrightarrow> rs_is_writted (hc_resp c) \<and> p \<le> length txt \<and>
     rs_resp_buff (hc_resp c) = \<lparr> ss_buf = txt, ss_pos = p, ss_eof = False, ss_fail = False \<rparr>"

definition keepalive :: "http_context \<Rightarrow> bool" where
  "keepalive c \<longleftrightarrow> map_of (hr_headers (hc_req c)) ''Connection'' = Some ''keep-alive''"

definition final_status :: "bool \<Rightarrow> write_status" where
  "final_status ka = (if ka then WRITE_ALIVE else WRITE_OVER)"

text \<open>A \<open>send\<close> that accepts at most \<open>cap\<close> bytes.\<close>

definition accepts :: "nat \<Rightarrow> string \<Rightarrow> int" where
  "accepts cap buffer = int (min cap (length buffer))"

lemma smap_index_keepalive:
  "(fst (smap_index ''Connection'' [] m) = ''keep-alive'') = (map_of m ''Connection'' = Some ''keep-alive'')"
  by (auto simp: smap_index_def split: option.split)

lemma smap_index_ok: "smap_ok m \<Longrightarrow> smap_ok (snd (smap_index k d m))"
  by (auto simp: smap_index_def split: option.split)

lemma smap_index_map_of:
  "smap_ok m \<Longrightarrow> map_of (snd (smap_index k d m)) = (map_of m)(k \<mapsto> fst (smap_index k d m))"
  by (auto simp: smap_index_def fun_upd_idem split: option.split)

lemma keepalive_index:
  "smap_ok m \<Longrightarrow> (map_of (snd (smap_index ''Connection'' [] m)) ''Connection'' = Some ''keep-alive'') =
     (map_of m ''Connection'' = Some ''keep-alive'')"
  using smap_index_keepalive [of m] by (simp add: smap_index_map_of)

text \<open>What one call does: which status, which bytes, and where it leaves the connection.\<close>

lemma OnWriteable_chunk:
  assumes "sending txt p c" "smap_ok (hr_headers (hc_req c))" "4096 \<le> length txt - p"
  shows "\<exists>c'. handler_OnWriteable (accepts cap) c = (WRITE_CONTINUE, take (min cap 4096) (drop p txt), c') \<and>
     sending txt (p + min cap 4096) c' \<and> keepalive c' = keepalive c \<and> smap_ok (hr_headers (hc_req c')) \<and>
     hr_req_buff (hc_req c') = hr_req_buff (hc_req c)"
proof -
  let ?m = "hr_headers (hc_req c)"
  let ?ix = "smap_index ''Connection'' [] ?m"
  have len: "length (take 4096 (drop p txt)) = 4096" using assms(3) by simp
  have rd: "ss_read 4096 (rs_resp_buff (hc_resp c)) =
      (take 4096 (drop p txt), (rs_resp_buff (hc_resp c))\<lparr>ss_pos := p + 4096\<rparr>)"
    using assms by (simp add: sending_def ss_read_def ss_good_def ss_rest_def Let_def)
  have rb: "p + min cap 4096 \<le> length txt" using assms(3) by linarith
  show ?thesis
  proof (cases "cap < 4096")
    case True
    let ?resp = "(hc_resp c)\<lparr>rs_resp_buff := (rs_resp_buff (hc_resp c))\<lparr>ss_pos := p + cap\<rparr>\<rparr>"
    have "snd (Rollback (4096 - int cap) ((hc_resp c)\<lparr>rs_resp_buff := (rs_resp_buff (hc_resp c))\<lparr>ss_pos := p + 4096\<rparr>\<rparr>)) = ?resp"
      using assms(1) True rb
      by (simp add: Rollback_def Let_def sending_def ss_tellg_def ss_seekg_def ss_good_def nat_add_distrib)
    then have "handler_OnWriteable (accepts cap) c = (WRITE_CONTINUE, take cap (drop p txt),
        c\<lparr>hc_req := (hc_req c)\<lparr>hr_headers := snd ?ix\<rparr>, hc_resp := ?resp\<rparr>)"
      using assms(1) rd len True
      by (simp add: handler_OnWriteable_def resp_OnWriteable_def Let_def case_prod_beta accepts_def sending_def
          EPOLL_SOCKET_WRITE_BUFFER_SIZE_def)
    with assms True rb show ?thesis
      by (auto simp: sending_def keepalive_def keepalive_index smap_index_ok)
  next
    case False
    have "handler_OnWriteable (accepts cap) c = (WRITE_CONTINUE, take 4096 (drop p txt),
        c\<lparr>hc_req := (hc_req c)\<lparr>hr_headers := snd ?ix\<rparr>,
          hc_resp := (hc_resp c)\<lparr>rs_resp_buff := (rs_resp_buff (hc_resp c))\<lparr>ss_pos := p + 4096\<rparr>\<rparr>\<rparr>)"
      using assms(1) rd len False
      by (simp add: handler_OnWriteable_def resp_OnWriteable_def Let_def case_prod_beta accepts_def sending_def
          EPOLL_SOCKET_WRITE_BUFFER_SIZE_def)
    with assms False rb show ?thesis
      by (auto simp: sending_def keepalive_def keepalive_index smap_index_ok)
  qed
qed

lemma OnWriteable_final:
  assumes "sending txt p c" "length txt - p < 4096"
  shows "\<exists>c'. handler_OnWriteable (accepts cap) c = (final_status (keepalive c), take cap (drop p txt), c') \<and>
     (if keepalive c \<and> 0 < min cap (length txt - p) then c' = Clear c
      else hr_req_buff (hc_req c') = hr_req_buff (hc_req c))"
proof -
  have rd: "ss_read 4096 (rs_resp_buff (hc_resp c)) =
      (drop p txt, (rs_resp_buff (hc_resp c))\<lparr>ss_pos := length txt, ss_eof := True, ss_fail := True\<rparr>)"
    using assms by (simp add: sending_def ss_read_def ss_good_def ss_rest_def Let_def)
  let ?n = "min cap (length txt - p)"
  let ?resp = "(hc_resp c)\<lparr>rs_resp_buff := (rs_resp_buff (hc_resp c))\<lparr>ss_pos := length txt, ss_eof := True, ss_fail := True\<rparr>\<rparr>"
  let ?c = "c\<lparr>hc_req := (hc_req c)\<lparr>hr_headers := snd (smap_index ''Connection'' [] (hr_headers (hc_req c)))\<rparr>,
      hc_resp := (if ?n < length txt - p then snd (Rollback (int (length txt - p) - int ?n) ?resp) else ?resp)\<rparr>"
  have ka: "(fst (smap_index ''Connection'' [] (hr_headers (hc_req c))) = ''keep-alive'') = keepalive c"
    by (simp only: smap_index_keepalive keepalive_def)
  have ro: "resp_OnWriteable k EPOLL_SOCKET_WRITE_BUFFER_SIZE (hc_resp c) = (final_status k, drop p txt, ?resp)" for k
    by (simp add: resp_OnWriteable_def EPOLL_SOCKET_WRITE_BUFFER_SIZE_def rd final_status_def Let_def)
  have tk: "take ?n (drop p txt) = take cap (drop p txt)" by (simp add: min_def)
  have wr: "rs_is_writted (hc_resp c)" using assms(1) by (simp add: sending_def)
  have st: "(final_status (keepalive c) = WRITE_ALIVE) = keepalive c" by (simp add: final_status_def)
  have eq: "handler_OnWriteable (accepts cap) c = (final_status (keepalive c), take cap (drop p txt),
      if keepalive c \<and> 0 < ?n then Clear ?c else ?c)"
    unfolding handler_OnWriteable_def Let_def case_prod_beta ka
    by (simp add: ro wr st tk accepts_def del: of_nat_min)
  have clear: "Clear ?c = Clear c" by (simp only: Clear_def http_context.update_convs) simp
  have buff: "hr_req_buff (hc_req ?c) = hr_req_buff (hc_req c)" by simp
  show ?thesis
  proof (cases "keepalive c \<and> 0 < ?n")
    case True
    with eq clear show ?thesis by (intro exI [of _ "Clear c"]) (simp only: if_True simp_thms)
  next
    case False
    with eq have "handler_OnWriteable (accepts cap) c = (final_status (keepalive c), take cap (drop p txt), ?c)"
      by (simp only: if_False)
    with False buff show ?thesis by (intro exI [of _ ?c]) (simp only: if_False simp_thms)
  qed
qed

text \<open>Successive writable events of one connection, \<open>send\<close> accepting at most the given numbers of bytes;
  stops when the status is no longer \<open>WRITE_CONTINUE\<close>.\<close>

fun drive :: "nat list \<Rightarrow> http_context \<Rightarrow> string \<times> write_status \<times> http_context" where
  "drive [] c = ([], WRITE_CONTINUE, c)"
| "drive (cap # caps) c =
     (let (st, out, c1) = handler_OnWriteable (accepts cap) c in
      if st = WRITE_CONTINUE then let (out', st', c2) = drive caps c1 in (out @ out', st', c2)
      else (out, st, c1))"

lemma final_status_neq [simp]: "final_status ka \<noteq> WRITE_CONTINUE"
  by (simp add: final_status_def)

lemma take_append_drop_prefix: "prefix zs (drop (p + n) xs) \<Longrightarrow> prefix (take n (drop p xs) @ zs) (drop p xs)"
proof -
  assume "prefix zs (drop (p + n) xs)"
  then have "prefix zs (drop n (drop p xs))" by (simp add: add.commute)
  then show ?thesis by (metis append_take_drop_id same_prefix_prefix)
qed

lemma drive_prefix:
  "sending txt p c \<Longrightarrow> smap_ok (hr_headers (hc_req c)) \<Longrightarrow> prefix (fst (drive caps c)) (drop p txt)"
proof (induction caps arbitrary: p c)
  case (Cons cap caps)
  show ?case
  proof (cases "4096 \<le> length txt - p")
    case True
    from OnWriteable_chunk [OF Cons.prems True, of cap] obtain c' where c':
      "handler_OnWriteable (accepts cap) c = (WRITE_CONTINUE, take (min cap 4096) (drop p txt), c')"
      "sending txt (p + min cap 4096) c'" "smap_ok (hr_headers (hc_req c'))" by blast
    with Cons.IH [OF c'(2,3)] show ?thesis
      by (auto simp: case_prod_beta intro: take_append_drop_prefix)
  next
    case False
    then obtain c' where "handler_OnWriteable (accepts cap) c = (final_status (keepalive c), take cap (drop p txt), c')"
      using OnWriteable_final [OF Cons.prems(1), of cap] by auto
    then show ?thesis by (simp add: take_is_prefix)
  qed
qed simp

lemma drive_full:
  "sending txt p c \<Longrightarrow> smap_ok (hr_headers (hc_req c)) \<Longrightarrow> list_all (\<lambda>cap. 4096 \<le> cap) caps \<Longrightarrow>
   (length txt - p) div 4096 < length caps \<Longrightarrow>
   \<exists>c'. drive caps c = (drop p txt, final_status (keepalive c), c') \<and>
     (if keepalive c \<and> \<not> 4096 dvd (length txt - p) then c' = Clear c'
      else hr_req_buff (hc_req c') = hr_req_buff (hc_req c))"
proof (induction caps arbitrary: p c)
  case (Cons cap caps)
  show ?case
  proof (cases "4096 \<le> length txt - p")
    case True
    have cap: "min cap 4096 = 4096" using Cons.prems(3) by simp
    from OnWriteable_chunk [OF Cons.prems(1,2) True, of cap] obtain c' where c':
      "handler_OnWriteable (accepts cap) c = (WRITE_CONTINUE, take 4096 (drop p txt), c')"
      "sending txt (p + 4096) c'" "smap_ok (hr_headers (hc_req c'))" "keepalive c' = keepalive c"
      "hr_req_buff (hc_req c') = hr_req_buff (hc_req c)" unfolding cap by blast
    have "length txt - p = (length txt - (p + 4096)) + 4096" using True by simp
    then have div: "(length txt - p) div 4096 = Suc ((length txt - (p + 4096)) div 4096)"
      and dvd: "4096 dvd (length txt - p) \<longleftrightarrow> 4096 dvd (length txt - (p + 4096))" by (simp_all only: div_add_self2 dvd_add_triv_right_iff)
    from Cons.IH [OF c'(2,3)] Cons.prems(3,4) div obtain c'' where c'':
      "drive caps c' = (drop (p + 4096) txt, final_status (keepalive c'), c'')"
      "if keepalive c' \<and> \<not> 4096 dvd (length txt - (p + 4096)) then c'' = Clear c''
       else hr_req_buff (hc_req c'') = hr_req_buff (hc_req c')" by auto
    have "take 4096 (drop p txt) @ drop (p + 4096) txt = drop p txt"
      by (metis add.commute append_take_drop_id drop_drop)
    with c' c'' dvd show ?thesis by simp
  next
    case False
    then have lt: "length txt - p < 4096" by simp
    from OnWriteable_final [OF Cons.prems(1) lt, of cap] obtain c' where c':
      "handler_OnWriteable (accepts cap) c = (final_status (keepalive c), take cap (drop p txt), c')"
      "if keepalive c \<and> 0 < min cap (length txt - p) then c' = Clear c
       else hr_req_buff (hc_req c') = hr_req_buff (hc_req c)"
      by blast
    have cap: "take cap (drop p txt) = drop p txt" "min cap (length txt - p) = length txt - p"
      using Cons.prems(3) lt by auto
    have "4096 dvd (length txt - p) \<longleftrightarrow> length txt - p = 0" using lt by (auto dest: dvd_imp_le)
    with c' cap show ?thesis by (auto simp: Clear_def split: if_splits)
  qed
qed simp

text \<open>A connection whose response has not been touched by the sender yet.\<close>

definition fresh_response :: "http_context \<Rightarrow> bool" where
  "fresh_response c \<longleftrightarrow> \<not> rs_is_writted (hc_resp c) \<and> rs_resp_buff (hc_resp c) = ss_of [] \<and> smap_ok (hr_headers (hc_req c))"

definition reply_str :: "http_context \<Rightarrow> string" where
  "reply_str c = response_str (hr_http_version (hc_req c)) (keepalive c) (hc_resp c)"

definition exported :: "http_context \<Rightarrow> http_context" where
  "exported c = c\<lparr>hc_resp := (hc_resp c)\<lparr>rs_resp_buff := ss_of (reply_str c), rs_is_writted := True\<rparr>\<rparr>"

lemma exported_sending: "sending (reply_str c) 0 (exported c)"
  by (simp add: sending_def exported_def ss_of_def)

lemma exported_simps [simp]: "hc_req (exported c) = hc_req c" "keepalive (exported c) = keepalive c"
  by (simp_all add: exported_def keepalive_def)

lemma first_write:
  assumes "fresh_response c"
  shows "handler_OnWriteable send c = handler_OnWriteable send (exported c)"
proof -
  have ka: "(fst (smap_index ''Connection'' [] (hr_headers (hc_req c))) = ''keep-alive'') = keepalive c"
    by (simp only: smap_index_keepalive keepalive_def)
  have ex: "(snd (ExportBuffer2Response (hr_http_version (hc_req c)) (keepalive c) (hc_resp c)))\<lparr>rs_is_writted := True\<rparr>
      = hc_resp (exported c)"
    using assms Export_eq [of "hc_resp c"] by (simp add: fresh_response_def exported_def reply_str_def) (simp add: ss_of_def)
  have nw: "\<not> rs_is_writted (hc_resp c)" "rs_is_writted (hc_resp (exported c))"
    using assms by (simp_all add: fresh_response_def exported_def)
  have hv: "hr_http_version ((hc_req c)\<lparr>hr_headers := m\<rparr>) = hr_http_version (hc_req c)" for m by simp
  have upd: "(exported c)\<lparr>hc_req := q, hc_resp := p\<rparr> = c\<lparr>hc_req := q, hc_resp := p\<rparr>" for q p
    by (simp add: exported_def)
  show ?thesis
    unfolding handler_OnWriteable_def Let_def case_prod_beta exported_simps ka upd
    by (simp only: nw hv ex if_True if_False not_True_eq_False not_False_eq_True)
qed

lemma drive_exported: "fresh_response c \<Longrightarrow> caps \<noteq> [] \<Longrightarrow> drive caps c = drive caps (exported c)"
  by (cases caps) (simp_all add: first_write)


lemma ss_write_fail: "ss_fail s \<Longrightarrow> ss_fail (ss_write str s)"
  by (simp add: ss_write_def ss_good_def)

text \<open>A request whose stream has failed never completes another parse.\<close>

lemma OnReadable_failed:
  assumes "ss_fail (hr_req_buff r)"
  shows "fst (OnReadable chunk r) \<in> {READ_CONTINUE, READ_REACH_MAX_SIZE}"
proof -
  have "ss_fail (hr_req_buff q) \<Longrightarrow> fst (is_read_over q) = False" for q :: http_request
    by (simp add: is_read_over_def ss_seekg_def ss_readsome_def ss_good_def Let_def)
  with assms show ?thesis by (auto simp: OnReadable_def Let_def ss_write_fail case_prod_beta)
qed

subsection \<open>Properties\<close>

text \<open>
  (C5) What a connection sends is the exported response text: whatever number of bytes each \<open>send\<close>
  accepts, the bytes sent so far are a prefix of it, nothing is repeated or skipped; and if every
  \<open>send\<close> accepts all it is offered, one event per 4096 bytes (and one more) sends all of it and
  ends with the status that closes or keeps the connection.
\<close>

theorem http_response_delivery:
  assumes "fresh_response c" "caps \<noteq> []"
  shows "prefix (fst (drive caps c)) (reply_str c) \<and>
    (list_all (\<lambda>cap. 4096 \<le> cap) caps \<and> length (reply_str c) div 4096 < length caps \<longrightarrow>
       fst (drive caps c) = reply_str c \<and> fst (snd (drive caps c)) = final_status (keepalive c))"
proof -
  have ok: "smap_ok (hr_headers (hc_req (exported c)))" using assms(1) by (simp add: fresh_response_def)
  have "prefix (fst (drive caps c)) (reply_str c)"
    using drive_prefix [OF exported_sending ok, of caps] drive_exported [OF assms] by simp
  moreover have "fst (drive caps c) = reply_str c \<and> fst (snd (drive caps c)) = final_status (keepalive c)"
    if "list_all (\<lambda>cap. 4096 \<le> cap) caps" "length (reply_str c) div 4096 < length caps"
    using drive_full [OF exported_sending ok that(1)] that(2) drive_exported [OF assms] by auto
  ultimately show ?thesis by blast
qed

lemma HttpContext_fresh: "fresh_response (HttpContext fd)"
  by (simp add: fresh_response_def HttpContext_def HttpResponse_def HttpRequest_def)

lemma length_reply_HttpContext: "length (reply_str (HttpContext fd)) = 121"
  by (simp add: reply_str_def response_str_def keepalive_def HttpContext_def HttpResponse_def HttpRequest_def
      STATUS_OK_def status_text_def server_line_def content_type_line_def content_length_line_def
      connection_line_def CRLF_def int_str_def nat_str.simps)

theorem http_response_delivery_witness:
  "fst (drive [4096] (HttpContext 7)) = reply_str (HttpContext 7) \<and> length (reply_str (HttpContext 7)) = 121"
  using http_response_delivery [OF HttpContext_fresh, of "[4096]" 7] length_reply_HttpContext [of 7] by simp

text \<open>
  (C34) A short \<open>send\<close> of the last part loses the rest: the status that ends the exchange was decided
  before \<open>send\<close>, so the connection is closed (or reset for the next request) although only a part
  of the response went out.
\<close>

theorem http_response_short_send_lost:
  assumes "fresh_response c" "length (reply_str c) < 4096" "cap < length (reply_str c)"
  shows "fst (drive (cap # caps) c) = take cap (reply_str c) \<and> take cap (reply_str c) \<noteq> reply_str c \<and>
    fst (snd (drive (cap # caps) c)) = final_status (keepalive c)"
proof -
  have "length (reply_str c) - 0 < 4096" using assms(2) by simp
  from OnWriteable_final [OF exported_sending this, of cap] obtain c' where
    "handler_OnWriteable (accepts cap) (exported c) = (final_status (keepalive c), take cap (reply_str c), c')"
    by auto
  moreover have "length (take cap (reply_str c)) \<noteq> length (reply_str c)" using assms(3) by simp
  then have "take cap (reply_str c) \<noteq> reply_str c" by metis
  ultimately show ?thesis using assms(1) by (simp add: first_write)
qed

theorem http_response_short_send_lost_witness:
  "fst (drive [10] (HttpContext 7)) = take 10 (reply_str (HttpContext 7)) \<and>
   fst (snd (drive [10] (HttpContext 7))) = WRITE_OVER"
  using http_response_short_send_lost [OF HttpContext_fresh, of 7 10 "[]"] length_reply_HttpContext [of 7]
  by (simp add: final_status_def keepalive_def HttpContext_def HttpRequest_def)



definition blocked_context :: http_context where
  "blocked_context = \<lparr> hc_req = HttpRequest\<lparr>hr_headers := [(''Connection'', ''keep-alive'')],
       hr_req_buff := (ss_of [])\<lparr>ss_fail := True\<rparr>\<rparr>,
     hc_resp = HttpResponse\<lparr>rs_body := replicate 3967 (CHR ''x'')\<rparr>, hc_fd = 7 \<rparr>"


end
