(* ===== verification/Http_Epoll.thy ===== *)
theory Http_Epoll
  imports Http_Response "HOL-Library.Multiset"
begin

text \<open>
  The epoll server of \<^verbatim>\<open>src/http/http_server/epoll_socket.cpp\<close>, \<^verbatim>\<open>epoll_socket.h\<close>,
  \<^verbatim>\<open>epoll_event_handler.h\<close> and \<^verbatim>\<open>http_server.cpp\<close>.  The results of the system calls are arguments.
  \<open>es_conns\<close> maps a connection's descriptor to its context, \<open>es_interest\<close> to the events it is
  registered for (all edge triggered); \<open>es_accepted\<close> and \<open>es_closed\<close> are histories.  The abstract
  class \<open>EpollEventHandler\<close> is a record of functions, which the HTTP handler instantiates.  The two
  descriptors the constructor leaves uninitialised start as \<open>-1\<close> and are set before they are read.
  An event carries a pointer or a descriptor in one union; the model distinguishes the two, where
  the loop compares the descriptor member with the listening socket.
\<close>

subsection \<open>State\<close>

datatype interest = WantIn | WantOut

record 'c event_context =
  ec_data :: 'c
  ec_fd :: int
  ec_client_ip :: string

record 'c event_handler =
  eh_OnAccept :: "int \<Rightarrow> 'c"
  eh_OnReadable :: "string \<Rightarrow> 'c \<Rightarrow> read_status \<times> 'c"
  eh_OnWriteable :: "(string \<Rightarrow> int) \<Rightarrow> 'c \<Rightarrow> write_status \<times> string \<times> 'c"

record 'c epoll_socket =
  es_epoll_fd :: int
  es_listen_fd :: int
  es_port :: int
  es_backlog :: int
  es_max_events :: int
  es_listening :: bool
  es_conns :: "int \<Rightarrow> 'c event_context option"
  es_interest :: "int \<Rightarrow> interest option"
  es_accepted :: "int list"
  es_closed :: "int list"

definition EpollSocket :: "int \<Rightarrow> int \<Rightarrow> int \<Rightarrow> 'c epoll_socket" where
  "EpollSocket port backlog max_events = \<lparr> es_epoll_fd = - 1, es_listen_fd = - 1, es_port = port, es_backlog = backlog,
     es_max_events = max_events, es_listening = False, es_conns = (\<lambda>_. None), es_interest = (\<lambda>_. None),
     es_accepted = [], es_closed = [] \<rparr>"

subsection \<open>Starting\<close>

text \<open>The result of each call of \<open>Start\<close>.\<close>

record start_calls =
  sc_socket :: int
  sc_bind :: int
  sc_listen :: int
  sc_epoll_create :: int
  sc_epoll_ctl :: int

definition listen_on :: "start_calls \<Rightarrow> 'c epoll_socket \<Rightarrow> int \<times> 'c epoll_socket" where
  "listen_on k s =
     (let s1 = s\<lparr>es_listen_fd := sc_socket k\<rparr> in
      if es_listen_fd s1 = - 1 then (- 1, s1)
      else if sc_bind k = - 1 then (- 1, s1)
      else if sc_listen k = - 1 then (- 1, s1)
      else (0, s1))"

definition create_epoll :: "start_calls \<Rightarrow> 'c epoll_socket \<Rightarrow> int \<times> 'c epoll_socket" where
  "create_epoll k s =
     (let s1 = s\<lparr>es_epoll_fd := sc_epoll_create k\<rparr> in
      if es_epoll_fd s1 = - 1 then (- 1, s1) else (0, s1))"

definition add_listen_socket_to_epoll :: "start_calls \<Rightarrow> 'c epoll_socket \<Rightarrow> int \<times> 'c epoll_socket" where
  "add_listen_socket_to_epoll k s =
     (if sc_epoll_ctl k = - 1 then (- 1, s) else (0, s\<lparr>es_listening := True\<rparr>))"

text \<open>\<open>Start\<close> up to the event loop: \<open>CHECK_RET\<close> returns the first error.\<close>

definition Start_setup :: "start_calls \<Rightarrow> 'c epoll_socket \<Rightarrow> int \<times> 'c epoll_socket" where
  "Start_setup k s =
     (let (ret, s1) = listen_on k s in
      if ret \<noteq> 0 then (ret, s1)
      else let (ret, s2) = create_epoll k s1 in
        if ret \<noteq> 0 then (ret, s2)
        else let (ret, s3) = add_listen_socket_to_epoll k s2 in
          if ret \<noteq> 0 then (ret, s3) else (0, s3))"

subsection \<open>Events\<close>

definition close_and_release :: "int \<Rightarrow> 'c epoll_socket \<Rightarrow> 'c epoll_socket" where
  "close_and_release fd s =
     (case es_conns s fd of
        None \<Rightarrow> s
      | Some ctx \<Rightarrow>
          s\<lparr>es_interest := (es_interest s)(ec_fd ctx := None),
            es_conns := (es_conns s)(fd := None),
            es_closed := (if ec_fd ctx > 0 then es_closed s @ [ec_fd ctx] else es_closed s)\<rparr>)"

text \<open>\<open>accept\<close> returned \<open>conn_fd\<close> (\<open>-1\<close> on error) and the peer's address, \<open>epoll_ctl\<close> returned \<open>ctl\<close>.\<close>

definition handle_accept_event ::
    "'c event_handler \<Rightarrow> int \<Rightarrow> string \<Rightarrow> int \<Rightarrow> 'c epoll_socket \<Rightarrow> int \<times> 'c epoll_socket" where
  "handle_accept_event h conn_fd client_ip ctl s =
     (if conn_fd = - 1 then (- 1, s)
      else
        let ctx = \<lparr> ec_data = eh_OnAccept h conn_fd, ec_fd = conn_fd, ec_client_ip = client_ip \<rparr>;
            s1 = s\<lparr>es_accepted := es_accepted s @ [conn_fd], es_conns := (es_conns s)(conn_fd \<mapsto> ctx)\<rparr>
        in if ctl = - 1 then (- 1, close_and_release conn_fd s1)
           else (0, s1\<lparr>es_interest := (es_interest s1)(conn_fd \<mapsto> WantIn)\<rparr>))"

text \<open>\<open>recv\<close> failed (\<^const>\<open>None\<close>) or returned data, empty when the peer closed.\<close>

definition handle_readable_event ::
    "'c event_handler \<Rightarrow> int \<Rightarrow> string option \<Rightarrow> 'c epoll_socket \<Rightarrow> 'c epoll_socket" where
  "handle_readable_event h fd recv s =
     (case es_conns s fd of
        None \<Rightarrow> s
      | Some ctx \<Rightarrow>
          let read_buffer = (case recv of None \<Rightarrow> [] | Some data \<Rightarrow> data);
              (ret, data) = (if read_buffer \<noteq> [] then eh_OnReadable h read_buffer (ec_data ctx)
                             else (READ_ERROR, ec_data ctx));
              s1 = s\<lparr>es_conns := (es_conns s)(fd \<mapsto> ctx\<lparr>ec_data := data\<rparr>)\<rparr>
          in if read_buffer = [] \<or> ret = READ_ERROR \<or> ret = READ_REACH_MAX_SIZE then close_and_release fd s1
             else if ret = READ_CONTINUE then s1\<lparr>es_interest := (es_interest s1)(fd \<mapsto> WantIn)\<rparr>
             else s1\<lparr>es_interest := (es_interest s1)(fd \<mapsto> WantOut)\<rparr>)"

definition handle_writeable_event ::
    "'c event_handler \<Rightarrow> int \<Rightarrow> (string \<Rightarrow> int) \<Rightarrow> 'c epoll_socket \<Rightarrow> string \<times> 'c epoll_socket" where
  "handle_writeable_event h fd send s =
     (case es_conns s fd of
        None \<Rightarrow> ([], s)
      | Some ctx \<Rightarrow>
          let (ret, out, data) = eh_OnWriteable h send (ec_data ctx);
              s1 = s\<lparr>es_conns := (es_conns s)(fd \<mapsto> ctx\<lparr>ec_data := data\<rparr>)\<rparr>
          in if ret = WRITE_ERROR \<or> ret = WRITE_OVER then (out, close_and_release fd s1)
             else if ret = WRITE_CONTINUE then (out, s1\<lparr>es_interest := (es_interest s1)(fd \<mapsto> WantOut)\<rparr>)
             else (out, s1\<lparr>es_interest := (es_interest s1)(fd \<mapsto> WantIn)\<rparr>))"

text \<open>
  One event reported by \<open>epoll_wait\<close>, with the results of the system calls its handling makes.  An
  event of a connection is handled as readable if \<open>EPOLLIN\<close> is set, else as writable if
  \<open>EPOLLOUT\<close> is, and otherwise logged.
\<close>

datatype epoll_ev =
    ListenEv int string int
  | ConnEv int bool bool "string option" "string \<Rightarrow> int"

definition handle_event :: "'c event_handler \<Rightarrow> epoll_ev \<Rightarrow> 'c epoll_socket \<Rightarrow> 'c epoll_socket" where
  "handle_event h ev s =
     (case ev of
        ListenEv conn_fd ip ctl \<Rightarrow> snd (handle_accept_event h conn_fd ip ctl s)
      | ConnEv fd epollin epollout recv send \<Rightarrow>
          if epollin then handle_readable_event h fd recv s
          else if epollout then snd (handle_writeable_event h fd send s)
          else s)"

text \<open>The loop: one list of events per \<open>epoll_wait\<close>, \<^const>\<open>None\<close> when that call fails, which ends it.\<close>

fun start_epoll_loop :: "'c event_handler \<Rightarrow> epoll_ev list option list \<Rightarrow> 'c epoll_socket \<Rightarrow> int option \<times> 'c epoll_socket" where
  "start_epoll_loop h [] s = (None, s)"
| "start_epoll_loop h (None # waits) s = (Some (- 1), s)"
| "start_epoll_loop h (Some evs # waits) s = start_epoll_loop h waits (fold (handle_event h) evs s)"

subsection \<open>The HTTP server\<close>

definition http_event_handler :: "(string \<Rightarrow> http_handler option) \<Rightarrow> http_context event_handler" where
  "http_event_handler uri2handler =
     \<lparr> eh_OnAccept = HttpContext, eh_OnReadable = handler_OnReadable uri2handler, eh_OnWriteable = handler_OnWriteable \<rparr>"

record http_server =
  hs_uri2handler :: "string \<Rightarrow> http_handler option"
  hs_socket :: "http_context epoll_socket"

definition HttpServer :: "int \<Rightarrow> int \<Rightarrow> int \<Rightarrow> http_server" where
  "HttpServer port backlog max_events =
     \<lparr> hs_uri2handler = (\<lambda>_. None), hs_socket = EpollSocket port backlog max_events \<rparr>"

definition RegisterHandler :: "string \<Rightarrow> http_handler \<Rightarrow> http_server \<Rightarrow> http_server" where
  "RegisterHandler path handler s = s\<lparr>hs_uri2handler := (hs_uri2handler s)(path \<mapsto> handler)\<rparr>"

text \<open>\<open>HttpServer::Start\<close> ignores the socket's result and returns 0.\<close>

definition server_Start ::
    "start_calls \<Rightarrow> epoll_ev list option list \<Rightarrow> http_server \<Rightarrow> int \<times> http_server" where
  "server_Start k waits s =
     (let (ret, sock) = Start_setup k (hs_socket s);
          sock' = (if ret \<noteq> 0 then sock
                   else snd (start_epoll_loop (http_event_handler (hs_uri2handler s)) waits sock))
      in (0, s\<lparr>hs_socket := sock'\<rparr>))"

subsection \<open>Descriptors\<close>

text \<open>Contexts and registrations go together, and every accepted descriptor is open or was closed once.\<close>

definition es_inv :: "'c epoll_socket \<Rightarrow> bool" where
  "es_inv s \<longleftrightarrow> finite (dom (es_conns s)) \<and> dom (es_interest s) = dom (es_conns s) \<and>
     (\<forall>fd ctx. es_conns s fd = Some ctx \<longrightarrow> ec_fd ctx = fd \<and> 0 < fd) \<and>
     mset (es_accepted s) = mset (es_closed s) + mset_set (dom (es_conns s))"

text \<open>What the kernel promises of \<open>accept\<close>: a descriptor that is not in use (and here not 0, which is
  standard input).  Events of connections are reported for registered descriptors only.\<close>

fun ev_ok :: "'c epoll_socket \<Rightarrow> epoll_ev \<Rightarrow> bool" where
  "ev_ok s (ListenEv fd ip ctl) \<longleftrightarrow> fd = - 1 \<or> (0 < fd \<and> es_conns s fd = None)"
| "ev_ok s (ConnEv fd i out recv send) \<longleftrightarrow> es_interest s fd \<noteq> None"

fun evs_ok :: "'c event_handler \<Rightarrow> epoll_ev list \<Rightarrow> 'c epoll_socket \<Rightarrow> bool" where
  "evs_ok h [] s \<longleftrightarrow> True"
| "evs_ok h (ev # evs) s \<longleftrightarrow> ev_ok s ev \<and> evs_ok h evs (handle_event h ev s)"

lemma es_inv_close:
  assumes "es_inv (s\<lparr>es_interest := q\<rparr>)" "dom (es_interest s) \<subseteq> dom (es_conns s)" "dom (es_conns s) - {fd} \<subseteq> dom (es_interest s)"
  shows "es_inv (close_and_release fd s)"
proof (cases "es_conns s fd")
  case None
  then have "dom (es_interest s) = dom (es_conns s)" using assms(2,3) by (auto simp: domIff)
  with None assms(1) show ?thesis by (simp add: es_inv_def close_and_release_def)
next
  case (Some ctx)
  with assms(1) have ctx: "ec_fd ctx = fd" "0 < fd" "fd \<in> dom (es_conns s)" "finite (dom (es_conns s))"
    by (auto simp: es_inv_def)
  have "mset_set (dom (es_conns s)) = add_mset fd (mset_set (dom (es_conns s) - {fd}))"
    using ctx by (metis finite_Diff insert_Diff mset_set.insert_remove Diff_insert_absorb insertI1 finite_insert insert_absorb)
  moreover have "dom ((es_interest s)(fd := None)) = dom (es_conns s) - {fd}" using assms(2,3) by auto
  ultimately show ?thesis using Some ctx assms(1)
    by (auto simp: es_inv_def close_and_release_def)
qed

lemma es_inv_data:
  assumes "es_inv s" "es_conns s fd = Some ctx"
  shows "es_inv (s\<lparr>es_conns := (es_conns s)(fd \<mapsto> ctx\<lparr>ec_data := d\<rparr>)\<rparr>)"
    "es_inv (s\<lparr>es_conns := (es_conns s)(fd \<mapsto> ctx\<lparr>ec_data := d\<rparr>), es_interest := (es_interest s)(fd \<mapsto> i)\<rparr>)"
    "es_inv (close_and_release fd (s\<lparr>es_conns := (es_conns s)(fd \<mapsto> ctx\<lparr>ec_data := d\<rparr>)\<rparr>))"
proof -
  have dom: "dom ((es_conns s)(fd \<mapsto> x)) = dom (es_conns s)" for x using assms(2) by auto
  show 1: "es_inv (s\<lparr>es_conns := (es_conns s)(fd \<mapsto> ctx\<lparr>ec_data := d\<rparr>)\<rparr>)"
    using assms by (auto simp: es_inv_def dom)
  show "es_inv (s\<lparr>es_conns := (es_conns s)(fd \<mapsto> ctx\<lparr>ec_data := d\<rparr>), es_interest := (es_interest s)(fd \<mapsto> i)\<rparr>)"
    using assms by (auto simp: es_inv_def dom)
  show "es_inv (close_and_release fd (s\<lparr>es_conns := (es_conns s)(fd \<mapsto> ctx\<lparr>ec_data := d\<rparr>)\<rparr>))"
    using 1 assms by (intro es_inv_close [where q = "es_interest s"]) (auto simp: es_inv_def)
qed

lemma es_inv_accept:
  assumes inv: "es_inv s" and fd: "fd = - 1 \<or> (0 < fd \<and> es_conns s fd = None)"
  shows "es_inv (snd (handle_accept_event h fd ip ctl s))"
proof (cases "fd = - 1")
  case True
  with inv show ?thesis by (simp add: handle_accept_event_def)
next
  case False
  let ?ctx = "\<lparr> ec_data = eh_OnAccept h fd, ec_fd = fd, ec_client_ip = ip \<rparr>"
  let ?s1 = "s\<lparr>es_accepted := es_accepted s @ [fd], es_conns := (es_conns s)(fd \<mapsto> ?ctx)\<rparr>"
  let ?s2 = "?s1\<lparr>es_interest := (es_interest s)(fd \<mapsto> WantIn)\<rparr>"
  have notin: "fd \<notin> dom (es_conns s)" using False fd by (simp add: domIff)
  have doms: "dom (es_interest s) = dom (es_conns s)" and fin: "finite (dom (es_conns s))"
    using inv by (simp_all add: es_inv_def)
  have "mset (es_accepted s) = mset (es_closed s) + mset_set (dom (es_conns s))" using inv by (simp add: es_inv_def)
  then have 2: "es_inv ?s2" using inv False fd fin notin unfolding es_inv_def by (simp add: doms)
  have "es_inv (?s1\<lparr>es_interest := (es_interest s)(fd \<mapsto> WantIn)\<rparr>)" using 2 by simp
  then have "es_inv (close_and_release fd ?s1)"
    by (rule es_inv_close) (simp_all add: doms notin, blast)
  with 2 False show ?thesis by (simp add: handle_accept_event_def Let_def)
qed

lemma es_inv_event: "es_inv s \<Longrightarrow> ev_ok s ev \<Longrightarrow> es_inv (handle_event h ev s)"
proof (cases ev)
  case (ListenEv fd ip ctl)
  moreover assume "es_inv s" "ev_ok s ev"
  ultimately show ?thesis by (simp add: handle_event_def es_inv_accept)
next
  case (ConnEv fd i out recv send)
  moreover assume "es_inv s"
  moreover have "es_inv (handle_readable_event h fd recv s)" if "es_inv s"
    using that es_inv_data [OF that, of fd]
    by (auto simp: handle_readable_event_def Let_def case_prod_beta split: option.split)
  moreover have "es_inv (snd (handle_writeable_event h fd send s))" if "es_inv s"
    using that es_inv_data [OF that, of fd]
    by (auto simp: handle_writeable_event_def Let_def case_prod_beta split: option.split)
  ultimately show ?thesis by (simp add: handle_event_def)
qed

lemma es_inv_events: "es_inv s \<Longrightarrow> evs_ok h evs s \<Longrightarrow> es_inv (fold (handle_event h) evs s)"
  by (induction evs arbitrary: s) (auto simp: es_inv_event)

lemma es_inv_init: "es_inv (snd (Start_setup k (EpollSocket port backlog max_events)))"
  by (simp add: Start_setup_def listen_on_def create_epoll_def add_listen_socket_to_epoll_def EpollSocket_def
      es_inv_def Let_def)

subsection \<open>The contract of an event handler\<close>

text \<open>
  What an \<open>EpollEventHandler\<close> may promise of the data it keeps for a connection: a relation between
  descriptor and data that \<open>OnAccept\<close> establishes and the other callbacks keep.
\<close>

locale connection_handler =
  fixes h :: "'c event_handler" and I :: "int \<Rightarrow> 'c \<Rightarrow> bool"
  assumes accept_I: "I fd (eh_OnAccept h fd)"
    and readable_I: "I fd c \<Longrightarrow> I fd (snd (eh_OnReadable h buf c))"
    and writeable_I: "I fd c \<Longrightarrow> I fd (snd (snd (eh_OnWriteable h send c)))"
begin

definition all_I :: "'c epoll_socket \<Rightarrow> bool" where
  "all_I s \<longleftrightarrow> (\<forall>fd ctx. es_conns s fd = Some ctx \<longrightarrow> I fd (ec_data ctx))"

lemma all_I_close: "all_I s \<Longrightarrow> all_I (close_and_release fd s)"
  by (auto simp: all_I_def close_and_release_def split: option.split)

lemma all_I_interest: "all_I (s\<lparr>es_interest := q\<rparr>) = all_I s"
  by (simp add: all_I_def)

lemma all_I_upd: "all_I s \<Longrightarrow> I fd (ec_data ctx) \<Longrightarrow> all_I (s\<lparr>es_conns := (es_conns s)(fd \<mapsto> ctx)\<rparr>)"
  by (simp add: all_I_def)

lemma all_I_accept: "all_I s \<Longrightarrow> all_I (snd (handle_accept_event h fd ip ctl s))"
proof -
  assume "all_I s"
  then have "all_I (s\<lparr>es_accepted := es_accepted s @ [fd],
      es_conns := (es_conns s)(fd \<mapsto> \<lparr> ec_data = eh_OnAccept h fd, ec_fd = fd, ec_client_ip = ip \<rparr>)\<rparr>)"
    by (simp add: all_I_def accept_I)
  then show ?thesis using \<open>all_I s\<close>
    by (simp add: handle_accept_event_def Let_def all_I_close all_I_interest)
qed

lemma all_I_readable: "all_I s \<Longrightarrow> all_I (handle_readable_event h fd recv s)"
proof (cases "es_conns s fd")
  case (Some ctx)
  assume s: "all_I s"
  with Some have "I fd (ec_data ctx)" by (simp add: all_I_def)
  then have "all_I (s\<lparr>es_conns := (es_conns s)(fd \<mapsto> ctx\<lparr>ec_data := snd (eh_OnReadable h buf (ec_data ctx))\<rparr>)\<rparr>)"
      "all_I (s\<lparr>es_conns := (es_conns s)(fd \<mapsto> ctx\<lparr>ec_data := ec_data ctx\<rparr>)\<rparr>)" for buf
    using s by (simp_all add: all_I_upd readable_I)
  then show ?thesis
    by (simp add: handle_readable_event_def Some Let_def case_prod_beta all_I_close all_I_interest)
qed (simp add: handle_readable_event_def)

lemma all_I_writeable: "all_I s \<Longrightarrow> all_I (snd (handle_writeable_event h fd send s))"
proof (cases "es_conns s fd")
  case (Some ctx)
  assume s: "all_I s"
  with Some have "I fd (ec_data ctx)" by (simp add: all_I_def)
  then have "all_I (s\<lparr>es_conns := (es_conns s)(fd \<mapsto> ctx\<lparr>ec_data := snd (snd (eh_OnWriteable h send (ec_data ctx)))\<rparr>)\<rparr>)"
    using s by (simp add: all_I_upd writeable_I)
  then show ?thesis
    by (simp add: handle_writeable_event_def Some Let_def case_prod_beta all_I_close all_I_interest)
qed (simp add: handle_writeable_event_def)

lemma all_I_event: "all_I s \<Longrightarrow> all_I (handle_event h ev s)"
  by (simp add: handle_event_def all_I_accept all_I_readable all_I_writeable split: epoll_ev.split)

lemma all_I_events: "all_I s \<Longrightarrow> all_I (fold (handle_event h) evs s)"
  by (induction evs arbitrary: s) (simp_all add: all_I_event)

lemma loop_I: "all_I s \<Longrightarrow> all_I (snd (start_epoll_loop h waits s))"
proof (induction waits arbitrary: s)
  case (Cons w waits)
  then show ?case by (cases w) (simp_all add: all_I_events)
qed simp

end

text \<open>The HTTP handler keeps in each context the descriptor it was accepted on, to which it sends.\<close>

lemma handler_OnReadable_fd: "hc_fd (snd (handler_OnReadable u buf c)) = hc_fd c"
  by (simp add: handler_OnReadable_def Let_def case_prod_beta)

lemma handler_OnWriteable_fd: "hc_fd (snd (snd (handler_OnWriteable send c))) = hc_fd c"
  by (simp add: handler_OnWriteable_def Let_def case_prod_beta Clear_def)

interpretation http_conn: connection_handler "http_event_handler u" "\<lambda>fd c. hc_fd c = fd" for u
  by unfold_locales
    (simp_all add: http_event_handler_def HttpContext_def handler_OnReadable_fd handler_OnWriteable_fd)

subsection \<open>Writable events of one connection\<close>

text \<open>Writable events of \<open>fd\<close>, while it stays registered for them, \<open>send\<close> accepting at most \<open>cap\<close> bytes.\<close>

fun serve_writes :: "http_context event_handler \<Rightarrow> int \<Rightarrow> nat list \<Rightarrow> http_context epoll_socket \<Rightarrow>
    string \<times> http_context epoll_socket" where
  "serve_writes h fd [] s = ([], s)"
| "serve_writes h fd (cap # caps) s =
     (let (out, s1) = handle_writeable_event h fd (accepts cap) s in
      if es_interest s1 fd = Some WantOut then let (out', s2) = serve_writes h fd caps s1 in (out @ out', s2)
      else (out, s1))"

lemma serve_writes_drive:
  assumes "es_conns s fd = Some ctx" "ec_fd ctx = fd" "0 < fd" "drive caps (ec_data ctx) = (out, st, c')"
    "st \<in> {WRITE_OVER, WRITE_ALIVE}"
  shows "\<exists>s'. serve_writes (http_event_handler u) fd caps s = (out, s') \<and>
    (if st = WRITE_OVER then es_conns s' fd = None \<and> es_interest s' fd = None \<and> es_closed s' = es_closed s @ [fd]
     else es_conns s' fd = Some (ctx\<lparr>ec_data := c'\<rparr>) \<and> es_interest s' fd = Some WantIn \<and> es_closed s' = es_closed s)"
  using assms
proof (induction caps arbitrary: s ctx out)
  case (Cons cap caps)
  obtain st1 out1 c1 where w: "handler_OnWriteable (accepts cap) (ec_data ctx) = (st1, out1, c1)"
    by (metis prod_cases3)
  have hw: "eh_OnWriteable (http_event_handler u) = handler_OnWriteable" by (simp add: http_event_handler_def)
  show ?case
  proof (cases "st1 = WRITE_CONTINUE")
    case True
    let ?s1 = "s\<lparr>es_conns := (es_conns s)(fd \<mapsto> ctx\<lparr>ec_data := c1\<rparr>), es_interest := (es_interest s)(fd \<mapsto> WantOut)\<rparr>"
    obtain out2 st2 c2 where d: "drive caps c1 = (out2, st2, c2)" by (metis prod_cases3)
    then have "st2 = st" "c2 = c'" "out = out1 @ out2" using Cons.prems(4) w True by simp_all
    with d Cons.IH [of ?s1 "ctx\<lparr>ec_data := c1\<rparr>" out2] Cons.prems w True show ?thesis
      by (auto simp: handle_writeable_event_def hw Let_def case_prod_beta)
  next
    case False
    then have "st = st1" "out = out1" "c' = c1" using Cons.prems(4) w by simp_all
    with Cons.prems(1,2,3,5) w False show ?thesis
      by (auto simp: handle_writeable_event_def hw Let_def close_and_release_def)
  qed
qed simp

lemma reply_served:
  assumes "es_conns s fd = Some ctx" "ec_fd ctx = fd" "0 < fd" "fresh_response (ec_data ctx)"
    "list_all (\<lambda>cap. 4096 \<le> cap) caps" "length (reply_str (ec_data ctx)) div 4096 < length caps"
  shows "\<exists>s'. serve_writes (http_event_handler u) fd caps s = (reply_str (ec_data ctx), s') \<and>
    (if keepalive (ec_data ctx) then es_interest s' fd = Some WantIn \<and> es_closed s' = es_closed s
     else es_conns s' fd = None \<and> es_interest s' fd = None \<and> es_closed s' = es_closed s @ [fd])"
proof -
  let ?c = "ec_data ctx"
  have "caps \<noteq> []" using assms(6) by auto
  then have eq: "drive caps ?c = drive caps (exported ?c)" using drive_exported assms(4) by blast
  have "smap_ok (hr_headers (hc_req (exported ?c)))" using assms(4) by (simp add: fresh_response_def)
  from drive_full [OF exported_sending this assms(5)] assms(6) obtain c' where
    "drive caps (exported ?c) = (reply_str ?c, final_status (keepalive ?c), c')" by auto
  with eq have "drive caps ?c = (reply_str ?c, final_status (keepalive ?c), c')" by simp
  moreover have "final_status (keepalive ?c) \<in> {WRITE_OVER, WRITE_ALIVE}" by (simp add: final_status_def)
  ultimately obtain s' where
    "serve_writes (http_event_handler u) fd caps s = (reply_str ?c, s')"
    "if final_status (keepalive ?c) = WRITE_OVER
     then es_conns s' fd = None \<and> es_interest s' fd = None \<and> es_closed s' = es_closed s @ [fd]
     else es_conns s' fd = Some (ctx\<lparr>ec_data := c'\<rparr>) \<and> es_interest s' fd = Some WantIn \<and> es_closed s' = es_closed s"
    using serve_writes_drive [OF assms(1-3), of caps "reply_str ?c" _ c' u] by blast
  then show ?thesis by (cases "keepalive ?c") (simp_all add: final_status_def)
qed

text \<open>What a handler of the application may do: it changes only the public fields of the response.\<close>

definition public_reply :: "http_request \<Rightarrow> http_request \<times> http_response \<Rightarrow> bool" where
  "public_reply q p \<longleftrightarrow> fst p = q \<and> \<not> rs_is_writted (snd p) \<and> rs_resp_buff (snd p) = ss_of []"

lemma request_event:
  assumes conn: "es_conns s fd = Some \<lparr> ec_data = HttpContext fd, ec_fd = fd, ec_client_ip = ip \<rparr>"
    and ps: "OnReadable txt HttpRequest = (READ_OVER, q)" and pub: "public_reply q (handle_http_request u q HttpResponse)"
    and ne: "txt \<noteq> []"
  shows "handle_readable_event (http_event_handler u) fd (Some txt) s =
    s\<lparr>es_conns := (es_conns s)(fd \<mapsto> \<lparr> ec_data = \<lparr> hc_req = q, hc_resp = snd (handle_http_request u q HttpResponse),
         hc_fd = fd \<rparr>, ec_fd = fd, ec_client_ip = ip \<rparr>),
      es_interest := (es_interest s)(fd \<mapsto> WantOut)\<rparr>"
proof -
  obtain p where p: "handle_http_request u q HttpResponse = (q, p)"
    using pub by (metis public_reply_def prod.collapse)
  have "handler_OnReadable u txt (HttpContext fd) = (READ_OVER, \<lparr> hc_req = q, hc_resp = p, hc_fd = fd \<rparr>)"
    using ps p by (simp add: handler_OnReadable_def HttpContext_def)
  then show ?thesis
    using conn ne by (simp add: handle_readable_event_def http_event_handler_def p Let_def)
qed

lemma Start_setup_ok:
  assumes "sc_socket k \<noteq> - 1" "sc_bind k \<noteq> - 1" "sc_listen k \<noteq> - 1" "sc_epoll_create k \<noteq> - 1" "sc_epoll_ctl k \<noteq> - 1"
  shows "Start_setup k s = (0, s\<lparr>es_listen_fd := sc_socket k, es_epoll_fd := sc_epoll_create k, es_listening := True\<rparr>)"
  using assms by (simp add: Start_setup_def listen_on_def create_epoll_def add_listen_socket_to_epoll_def Let_def)

definition calls_ok :: start_calls where
  "calls_ok = \<lparr> sc_socket = 3, sc_bind = 0, sc_listen = 0, sc_epoll_create = 4, sc_epoll_ctl = 0 \<rparr>"

lemma started:
  "snd (Start_setup calls_ok (EpollSocket 80 10 10)) =
     \<lparr> es_epoll_fd = 4, es_listen_fd = 3, es_port = 80, es_backlog = 10, es_max_events = 10, es_listening = True,
       es_conns = (\<lambda>_. None), es_interest = (\<lambda>_. None), es_accepted = [], es_closed = [] \<rparr>"
  by (simp add: Start_setup_ok calls_ok_def EpollSocket_def)

subsection \<open>Properties\<close>

text \<open>
  (C2) No descriptor is leaked or closed twice.  After any sequence of events, every descriptor the
  server accepted is either the key of exactly one live connection or was closed, as many times
  as it was accepted; the live connections are the registered ones.
\<close>

theorem epoll_descriptors:
  assumes "evs_ok h evs (snd (Start_setup k (EpollSocket port backlog max_events)))"
  defines "s \<equiv> fold (handle_event h) evs (snd (Start_setup k (EpollSocket port backlog max_events)))"
  shows "mset (es_accepted s) = mset (es_closed s) + mset_set (dom (es_conns s)) \<and>
    dom (es_interest s) = dom (es_conns s) \<and> finite (dom (es_conns s))"
  using es_inv_events [OF es_inv_init assms(1)] by (simp add: es_inv_def s_def)

theorem epoll_descriptors_witness:
  "\<exists>s :: http_context epoll_socket. mset (es_accepted s) = mset (es_closed s) + mset_set (dom (es_conns s)) \<and>
     es_accepted s = [5, 6] \<and> es_closed s = [5]"
proof -
  let ?h = "http_event_handler (\<lambda>_. None)"
  let ?evs = "[ListenEv 5 [] 0, ListenEv 6 [] 0, ConnEv 5 True False None (accepts 0)]"
  let ?start = "snd (Start_setup calls_ok (EpollSocket 80 10 10))"
  let ?s = "fold (handle_event ?h) ?evs ?start"
  note ev = handle_event_def handle_accept_event_def started Let_def
  have "evs_ok ?h ?evs ?start" by (simp add: ev)
  from epoll_descriptors [OF this] have "mset (es_accepted ?s) = mset (es_closed ?s) + mset_set (dom (es_conns ?s))"
    by (rule conjunct1)
  moreover have "es_accepted ?s = [5, 6]" "es_closed ?s = [5]"
    by (simp_all add: ev handle_readable_event_def close_and_release_def)
  ultimately show ?thesis by blast
qed

text \<open>
  (C27) A response goes to the client that sent the request: whatever events the server of any
  registered handlers sees, the descriptor its HTTP context sends to is the descriptor the
  connection is known under.
\<close>

theorem http_context_own_descriptor:
  assumes "es_conns (snd (start_epoll_loop (http_event_handler u) waits
      (snd (Start_setup k (EpollSocket port backlog max_events))))) fd = Some ctx"
  shows "hc_fd (ec_data ctx) = fd"
proof -
  have "http_conn.all_I (snd (Start_setup k (EpollSocket port backlog max_events)))"
    by (simp add: http_conn.all_I_def Start_setup_def listen_on_def create_epoll_def add_listen_socket_to_epoll_def
        EpollSocket_def Let_def)
  from http_conn.loop_I [OF this] assms show ?thesis by (simp add: http_conn.all_I_def)
qed

theorem http_context_own_descriptor_witness:
  "\<exists>ctx. es_conns (snd (start_epoll_loop (http_event_handler (\<lambda>_. None)) [Some [ListenEv 5 [] 0], None]
      (snd (Start_setup calls_ok (EpollSocket 80 10 10))))) 5 = Some ctx \<and> hc_fd (ec_data ctx) = 5"
proof -
  let ?s = "snd (start_epoll_loop (http_event_handler (\<lambda>_. None)) [Some [ListenEv 5 [] 0], None]
      (snd (Start_setup calls_ok (EpollSocket 80 10 10))))"
  have "\<exists>ctx. es_conns ?s 5 = Some ctx"
    by (simp add: started handle_event_def handle_accept_event_def Let_def)
  then show ?thesis using http_context_own_descriptor by blast
qed



end
