(* ===== verification/Tcp_Relay.thy ===== *)
theory Tcp_Relay
  imports Cxx_Text "HOL-Library.Multiset"
begin

text \<open>
  The chat relay of \<^verbatim>\<open>src/tcp/tcp_server/tcp_server.cc\<close> and \<^verbatim>\<open>src/tcp/tcp_client/tcp_client.cc\<close>.  The
  server forwards what a client sends to all others, the client cuts what it reads at newlines
  and prints the messages.  The results of the system calls are arguments.  \<open>exit(EXIT_FAILURE)\<close> and
  a write outside a buffer are the two ways a process stops with an error.
\<close>

datatype process_end = EXIT_FAILURE | OUT_OF_BOUNDS

subsection \<open>Server\<close>

record tcp_server =
  ts_delim :: string
  ts_port :: int
  ts_listen_sockfd :: int
  ts_epoll_fd :: int
  ts_is_stop :: bool
  ts_sock_fd_to_client_addr :: "(int \<times> string) list"
  ts_nonblocking :: "int list"
  ts_registered :: "int list"
  ts_closed :: "int list"
  ts_written :: "(int \<times> string) list"

text \<open>The last four components record the effects on descriptors and what was written to them.\<close>

definition TcpServer :: "string \<Rightarrow> tcp_server" where
  "TcpServer delim = \<lparr> ts_delim = delim, ts_port = - 1, ts_listen_sockfd = - 1, ts_epoll_fd = - 1, ts_is_stop = False,
     ts_sock_fd_to_client_addr = [], ts_nonblocking = [], ts_registered = [], ts_closed = [], ts_written = [] \<rparr>"

text \<open>The results of the calls made by \<open>Start\<close>.\<close>

record tcp_start =
  k_socket :: int
  k_bind :: int
  k_listen :: int
  k_getfl :: int
  k_setfl :: int
  k_epoll_create :: int
  k_epoll_ctl :: int

definition ListenOn :: "tcp_start \<Rightarrow> tcp_server \<Rightarrow> process_end + tcp_server" where
  "ListenOn k s =
     (let s1 = s\<lparr>ts_listen_sockfd := k_socket k\<rparr> in
      if ts_listen_sockfd s1 = - 1 then Inl EXIT_FAILURE
      else if k_bind k = - 1 then Inl EXIT_FAILURE
      else if k_listen k = - 1 then Inl EXIT_FAILURE
      else Inr s1)"

definition SetNonBlocking :: "int \<Rightarrow> int \<Rightarrow> int \<Rightarrow> tcp_server \<Rightarrow> process_end + tcp_server" where
  "SetNonBlocking getfl setfl fd s =
     (if getfl = - 1 then Inl EXIT_FAILURE
      else if setfl = - 1 then Inl EXIT_FAILURE
      else Inr (s\<lparr>ts_nonblocking := ts_nonblocking s @ [fd]\<rparr>))"

definition CreateEpoll :: "tcp_start \<Rightarrow> tcp_server \<Rightarrow> process_end + tcp_server" where
  "CreateEpoll k s =
     (let s1 = s\<lparr>ts_epoll_fd := k_epoll_create k\<rparr> in
      if ts_epoll_fd s1 = - 1 then Inl EXIT_FAILURE else Inr s1)"

definition AddListenSocketToEpoll :: "tcp_start \<Rightarrow> tcp_server \<Rightarrow> process_end + tcp_server" where
  "AddListenSocketToEpoll k s =
     (if k_epoll_ctl k = - 1 then Inl EXIT_FAILURE
      else Inr (s\<lparr>ts_registered := ts_registered s @ [ts_listen_sockfd s]\<rparr>))"

definition tcp_bind :: "process_end + 'a \<Rightarrow> ('a \<Rightarrow> process_end + 'b) \<Rightarrow> process_end + 'b" where
  "tcp_bind r f = (case r of Inl e \<Rightarrow> Inl e | Inr x \<Rightarrow> f x)"

lemma tcp_bind_simps [simp]: "tcp_bind (Inl e) f = Inl e" "tcp_bind (Inr x) f = f x"
  by (simp_all add: tcp_bind_def)

text \<open>\<open>Start\<close> up to the creation of the thread that runs \<open>HandleEpollEvent\<close>.\<close>

definition tcp_Start :: "tcp_start \<Rightarrow> int \<Rightarrow> tcp_server \<Rightarrow> process_end + bool \<times> tcp_server" where
  "tcp_Start k port s =
     tcp_bind (ListenOn k (s\<lparr>ts_port := port\<rparr>)) (\<lambda>s1.
     tcp_bind (SetNonBlocking (k_getfl k) (k_setfl k) (ts_listen_sockfd s1) s1) (\<lambda>s2.
     tcp_bind (CreateEpoll k s2) (\<lambda>s3.
     tcp_bind (AddListenSocketToEpoll k s3) (\<lambda>s4. Inr (True, s4)))))"

text \<open>\<open>Stop\<close> sets the flag the loop reads; joining the thread is waiting for that loop.\<close>

definition tcp_Stop :: "tcp_server \<Rightarrow> tcp_server" where
  "tcp_Stop s = s\<lparr>ts_is_stop := True\<rparr>"

text \<open>One event: a connection with the results of \<open>accept\<close> (and the peer's address), both calls of
  \<open>fcntl\<close> and \<open>epoll_ctl\<close>, or input of a client with the result of \<open>read\<close> and the behaviour of \<open>write\<close>.\<close>

datatype read_result = ReadError bool | ReadData string

datatype tcp_event =
    AcceptEvent int string int int int
  | ClientMsg int read_result "int \<Rightarrow> string \<Rightarrow> int"

definition put_addr :: "int \<Rightarrow> string \<Rightarrow> (int \<times> string) list \<Rightarrow> (int \<times> string) list" where
  "put_addr fd addr m = (if map_of m fd = None then m @ [(fd, addr)]
     else map (\<lambda>e. if fst e = fd then (fd, addr) else e) m)"

definition accept_event_handler ::
    "int \<Rightarrow> string \<Rightarrow> int \<Rightarrow> int \<Rightarrow> int \<Rightarrow> tcp_server \<Rightarrow> process_end + tcp_server" where
  "accept_event_handler conn_fd addr getfl setfl ctl s =
     (if conn_fd = - 1 then Inl EXIT_FAILURE
      else
        let s1 = s\<lparr>ts_sock_fd_to_client_addr := put_addr conn_fd addr (ts_sock_fd_to_client_addr s)\<rparr> in
        tcp_bind (SetNonBlocking getfl setfl conn_fd s1) (\<lambda>s2.
        if ctl = - 1 then Inl EXIT_FAILURE
        else Inr (s2\<lparr>ts_registered := ts_registered s2 @ [conn_fd]\<rparr>)))"

text \<open>The loop that forwards: the map is iterated in an order the standard leaves open, here that of the list.\<close>

fun forward_loop :: "(int \<Rightarrow> string \<Rightarrow> int) \<Rightarrow> int \<Rightarrow> string \<Rightarrow> int list \<Rightarrow> tcp_server \<Rightarrow> process_end + tcp_server" where
  "forward_loop wr sock_fd msg [] s = Inr s"
| "forward_loop wr sock_fd msg (fd # fds) s =
     (if fd \<noteq> sock_fd then
        (if wr fd msg = - 1 then Inl EXIT_FAILURE
         else forward_loop wr sock_fd msg fds
                (s\<lparr>ts_written := ts_written s @ [(fd, take (nat (wr fd msg)) msg)]\<rparr>))
      else forward_loop wr sock_fd msg fds s)"

definition client_msg_handler ::
    "int \<Rightarrow> read_result \<Rightarrow> (int \<Rightarrow> string \<Rightarrow> int) \<Rightarrow> tcp_server \<Rightarrow> process_end + tcp_server" where
  "client_msg_handler sock_fd r wr s =
     (case r of
        ReadError eagain \<Rightarrow> if \<not> eagain then Inl EXIT_FAILURE else Inr s
      | ReadData buffer \<Rightarrow>
          if buffer = [] then
            Inr (s\<lparr>ts_sock_fd_to_client_addr := filter (\<lambda>e. fst e \<noteq> sock_fd) (ts_sock_fd_to_client_addr s),
                   ts_closed := ts_closed s @ [sock_fd]\<rparr>)
          else forward_loop wr sock_fd buffer (map fst (ts_sock_fd_to_client_addr s)) s)"

fun tcp_handle :: "tcp_event \<Rightarrow> tcp_server \<Rightarrow> process_end + tcp_server" where
  "tcp_handle (AcceptEvent conn_fd addr getfl setfl ctl) s = accept_event_handler conn_fd addr getfl setfl ctl s"
| "tcp_handle (ClientMsg fd r wr) s = client_msg_handler fd r wr s"

fun tcp_events :: "tcp_event list \<Rightarrow> tcp_server \<Rightarrow> process_end + tcp_server" where
  "tcp_events [] s = Inr s"
| "tcp_events (ev # evs) s = tcp_bind (tcp_handle ev s) (tcp_events evs)"

text \<open>The loop over the results of \<open>epoll_wait\<close>, each with whether \<open>Stop\<close> has been called by then.\<close>

fun HandleEpollEvent :: "(bool \<times> tcp_event list option) list \<Rightarrow> tcp_server \<Rightarrow> process_end + tcp_server" where
  "HandleEpollEvent [] s = Inr s"
| "HandleEpollEvent ((stopped, w) # ws) s =
     (let s1 = (if stopped then tcp_Stop s else s) in
      if ts_is_stop s1 then Inr s1
      else case w of
             None \<Rightarrow> Inl EXIT_FAILURE
           | Some evs \<Rightarrow> tcp_bind (tcp_events evs s1) (HandleEpollEvent ws))"

subsection \<open>Client\<close>

definition kMaxBufferSize :: nat where
  "kMaxBufferSize = 4096"

text \<open>\<open>Split\<close>: its loop tests \<open>eof\<close> only, so it might not end; \<^const>\<open>None\<close> is not ending.\<close>

partial_function (option) Split_loop :: "char \<Rightarrow> string \<Rightarrow> stringstream \<Rightarrow> string list \<Rightarrow> string list option" where
  "Split_loop delim temp iss res =
     (if \<not> ss_eof iss then
        let (temp', iss') = ss_getline delim temp iss in
        Split_loop delim temp' iss' (if temp' \<noteq> [CHR 0x0A] \<and> temp' \<noteq> [] then res @ [temp'] else res)
      else Some res)"

declare Split_loop.simps [code]

definition Split :: "string \<Rightarrow> char \<Rightarrow> string list option" where
  "Split msg delim = Split_loop delim [] (ss_of msg) []"

record tcp_client =
  tc_name :: string
  tc_sockfd :: int
  tc_is_stop :: bool
  tc_printed :: "string list"

definition TcpClient :: "string \<Rightarrow> tcp_client" where
  "TcpClient name = \<lparr> tc_name = name, tc_sockfd = - 1, tc_is_stop = False, tc_printed = [] \<rparr>"

text \<open>\<open>Connect\<close> up to the creation of the thread; both failures exit.\<close>

definition Connect :: "int \<Rightarrow> int \<Rightarrow> tcp_client \<Rightarrow> process_end + tcp_client" where
  "Connect sock conn c =
     (let c1 = c\<lparr>tc_sockfd := sock\<rparr> in
      if tc_sockfd c1 = - 1 then Inl EXIT_FAILURE
      else if conn = - 1 then Inl EXIT_FAILURE
      else Inr c1)"

definition Disconnect :: "tcp_client \<Rightarrow> tcp_client" where
  "Disconnect c = c\<lparr>tc_is_stop := True\<rparr>"

text \<open>\<open>Send\<close>: what reaches the socket, or exit.\<close>

definition Send :: "(string \<Rightarrow> int) \<Rightarrow> string \<Rightarrow> process_end + string" where
  "Send wr buffer = (if wr buffer = - 1 then Inl EXIT_FAILURE else Inr (take (nat (wr buffer)) buffer))"

text \<open>
  The read branch of the receiving thread.  \<open>buffer[nbytes] = 0\<close> is outside the array when the read
  filled it; the array as a C string ends at its first NUL.
\<close>

definition recv_data :: "string \<Rightarrow> tcp_client \<Rightarrow> process_end + tcp_client" where
  "recv_data buffer c =
     (if kMaxBufferSize \<le> length buffer then Inl OUT_OF_BOUNDS
      else case Split (takeWhile (\<lambda>x. x \<noteq> CHR 0x00) buffer) (CHR 0x0A) of
             None \<Rightarrow> Inl OUT_OF_BOUNDS
           | Some msgs \<Rightarrow> Inr (c\<lparr>tc_printed := tc_printed c @ msgs\<rparr>))"

text \<open>One round of the receiving thread: \<open>select\<close> failed, timed out, or the socket was read.\<close>

datatype select_result = SelectError | SelectTimeout | SelectRead read_result

definition recv_round :: "select_result \<Rightarrow> tcp_client \<Rightarrow> process_end + tcp_client" where
  "recv_round sel c =
     (case sel of
        SelectError \<Rightarrow> Inl EXIT_FAILURE
      | SelectTimeout \<Rightarrow> Inr c
      | SelectRead (ReadError eagain) \<Rightarrow> Inl EXIT_FAILURE
      | SelectRead (ReadData buffer) \<Rightarrow> if buffer = [] then Inl EXIT_FAILURE else recv_data buffer c)"

fun recv_loop :: "(bool \<times> select_result) list \<Rightarrow> tcp_client \<Rightarrow> process_end + tcp_client" where
  "recv_loop [] c = Inr c"
| "recv_loop ((stopped, sel) # rs) c =
     (let c1 = (if stopped then Disconnect c else c) in
      if tc_is_stop c1 then Inr c1 else tcp_bind (recv_round sel c1) (recv_loop rs))"

subsection \<open>Splitting\<close>

definition kept_pieces :: "char \<Rightarrow> string \<Rightarrow> string list" where
  "kept_pieces d str = filter (\<lambda>p. p \<noteq> [CHR 0x0A] \<and> p \<noteq> []) (split_on d str)"

lemma Split_loop_eq: "ss_good s \<Longrightarrow> Split_loop d t s res = Some (res @ kept_pieces d (ss_rest s))"
proof (induction "ss_measure s" arbitrary: s t res rule: less_induct)
  case less
  obtain l s' where g: "ss_getline d t s = (l, s')" by fastforce
  have step: "Split_loop d t s res = Split_loop d l s' (if l \<noteq> [CHR 0x0A] \<and> l \<noteq> [] then res @ [l] else res)"
    using less.prems g by (subst Split_loop.simps) (simp add: ss_good_def)
  show ?case
  proof (cases "d \<in> set (ss_rest s)")
    case True
    then obtain a b where ab: "ss_rest s = a @ d # b" "d \<notin> set a" by (meson split_list_first)
    have more: "l = a" "ss_good s'" "ss_rest s' = b"
      using ss_getline_more [OF less.prems ab(1) ab(2), of t] g by simp_all
    have "ss_measure s' < ss_measure s" using ss_getline_measure [OF less.prems, of d t] g by simp
    from less.hyps [OF this more(2)] step more ab show ?thesis
      by (simp add: kept_pieces_def split_on_append)
  next
    case False
    have last: "l = ss_rest s" "ss_eof s'" using ss_getline_last [OF less.prems False, of t] g by simp_all
    then have "Split_loop d l s' r = Some r" for r by (subst Split_loop.simps) simp
    with step last False show ?thesis by (simp add: kept_pieces_def split_on_none)
  qed
qed

lemma Split_eq: "Split str d = Some (kept_pieces d str)"
  by (simp add: Split_def Split_loop_eq)

subsection \<open>The contract between sender and receiver\<close>

text \<open>
  A framing of messages: any sequence of printed messages is read back from their concatenation.
  What a receiver does that gets the text in pieces cut between messages follows from it.
\<close>

locale message_framing =
  fixes frame :: "string \<Rightarrow> string" and unframe :: "string \<Rightarrow> string list" and ok :: "string \<Rightarrow> bool"
  assumes unframe_frames: "list_all ok ms \<Longrightarrow> unframe (concat (map frame ms)) = ms"
begin

lemma unframe_batches:
  "list_all (list_all ok) batches \<Longrightarrow>
   concat (map (\<lambda>ms. unframe (concat (map frame ms))) batches) = concat batches"
  by (induction batches) (simp_all add: unframe_frames)

end

definition message_ok :: "string \<Rightarrow> bool" where
  "message_ok m \<longleftrightarrow> m \<noteq> [] \<and> CHR 0x0A \<notin> set m \<and> CHR 0x00 \<notin> set m"

definition frames :: "string list \<Rightarrow> string" where
  "frames ms = concat (map (\<lambda>m. m @ [CHR 0x0A]) ms)"

lemma kept_pieces_frames: "list_all message_ok ms \<Longrightarrow> kept_pieces (CHR 0x0A) (frames ms) = ms"
proof (induction ms)
  case Nil
  show ?case by (simp add: frames_def kept_pieces_def split_on_none)
next
  case (Cons m ms)
  then have m: "m \<noteq> []" "CHR 0x0A \<notin> set m" by (simp_all add: message_ok_def)
  then have "m \<noteq> [CHR 0x0A]" by auto
  moreover have "frames (m # ms) = m @ CHR 0x0A # frames ms" by (simp add: frames_def)
  ultimately show ?case using Cons m by (simp add: kept_pieces_def split_on_append)
qed

lemma frames_no_nul: "list_all message_ok ms \<Longrightarrow> takeWhile (\<lambda>x. x \<noteq> CHR 0x00) (frames ms) = frames ms"
  by (auto simp: takeWhile_eq_all_conv frames_def message_ok_def list_all_iff)

definition read_messages :: "string \<Rightarrow> string list" where
  "read_messages buffer = kept_pieces (CHR 0x0A) (takeWhile (\<lambda>x. x \<noteq> CHR 0x00) buffer)"

interpretation newline: message_framing "\<lambda>m. m @ [CHR 0x0A]" read_messages message_ok
  by unfold_locales
    (simp add: read_messages_def frames_no_nul kept_pieces_frames flip: frames_def)

lemma recv_data_eq:
  "length buffer < kMaxBufferSize \<Longrightarrow> recv_data buffer c = Inr (c\<lparr>tc_printed := tc_printed c @ read_messages buffer\<rparr>)"
  by (simp add: recv_data_def Split_eq read_messages_def)

lemma recv_loop_reads:
  assumes "\<not> tc_is_stop c" "list_all (\<lambda>b. b \<noteq> [] \<and> length b < kMaxBufferSize) bufs"
  shows "recv_loop (map (\<lambda>b. (False, SelectRead (ReadData b))) bufs) c =
    Inr (c\<lparr>tc_printed := tc_printed c @ concat (map read_messages bufs)\<rparr>)"
  using assms
proof (induction bufs arbitrary: c)
  case (Cons b bufs)
  then show ?case by (simp add: recv_round_def recv_data_eq)
qed simp

subsection \<open>Forwarding\<close>

definition forwarded :: "(int \<Rightarrow> string \<Rightarrow> int) \<Rightarrow> int \<Rightarrow> string \<Rightarrow> int list \<Rightarrow> (int \<times> string) list" where
  "forwarded wr sock_fd msg fds = map (\<lambda>fd. (fd, take (nat (wr fd msg)) msg)) (filter (\<lambda>fd. fd \<noteq> sock_fd) fds)"

lemma forward_loop_eq:
  "forward_loop wr sock_fd msg fds s =
     (if list_all (\<lambda>fd. fd = sock_fd \<or> wr fd msg \<noteq> - 1) fds
      then Inr (s\<lparr>ts_written := ts_written s @ forwarded wr sock_fd msg fds\<rparr>) else Inl EXIT_FAILURE)"
  by (induction fds arbitrary: s) (simp_all add: forwarded_def)

text \<open>The descriptors registered are the listening socket, the live clients and those already closed.\<close>

definition tcp_inv :: "tcp_server \<Rightarrow> bool" where
  "tcp_inv s \<longleftrightarrow> distinct (map fst (ts_sock_fd_to_client_addr s)) \<and>
     ts_listen_sockfd s \<notin> set (map fst (ts_sock_fd_to_client_addr s)) \<and>
     mset (ts_registered s) = {# ts_listen_sockfd s #} + mset (ts_closed s) + mset (map fst (ts_sock_fd_to_client_addr s))"

text \<open>The kernel gives \<open>accept\<close> a descriptor that is not open, and reports input of clients only.\<close>

fun tcp_ev_ok :: "tcp_server \<Rightarrow> tcp_event \<Rightarrow> bool" where
  "tcp_ev_ok s (AcceptEvent fd addr getfl setfl ctl) \<longleftrightarrow>
     fd \<notin> set (ts_listen_sockfd s # map fst (ts_sock_fd_to_client_addr s))"
| "tcp_ev_ok s (ClientMsg fd r wr) \<longleftrightarrow> fd \<in> set (map fst (ts_sock_fd_to_client_addr s))"

fun tcp_evs_ok :: "tcp_event list \<Rightarrow> tcp_server \<Rightarrow> bool" where
  "tcp_evs_ok [] s \<longleftrightarrow> True"
| "tcp_evs_ok (ev # evs) s \<longleftrightarrow> tcp_ev_ok s ev \<and> (case tcp_handle ev s of Inl _ \<Rightarrow> True | Inr s' \<Rightarrow> tcp_evs_ok evs s')"

lemma mset_remove_key: "distinct xs \<Longrightarrow> x \<in> set xs \<Longrightarrow> mset xs = add_mset x (mset (filter (\<lambda>y. y \<noteq> x) xs))"
proof (induction xs)
  case (Cons y ys)
  show ?case
  proof (cases "x = y")
    case True
    with Cons.prems have "filter (\<lambda>z. z \<noteq> x) ys = ys" by (auto simp: filter_id_conv)
    with True show ?thesis by simp
  qed (use Cons in auto)
qed simp

lemma map_fst_filter_key: "map fst (filter (\<lambda>e. fst e \<noteq> x) es) = filter (\<lambda>y. y \<noteq> x) (map fst es)"
  by (induction es) simp_all

lemma tcp_inv_event:
  assumes "tcp_inv s" "tcp_ev_ok s ev" "tcp_handle ev s = Inr s'"
  shows "tcp_inv s'"
proof (cases ev)
  case (AcceptEvent fd addr getfl setfl ctl)
  with assms have "map_of (ts_sock_fd_to_client_addr s) fd = None" by (simp add: map_of_eq_None_iff)
  with AcceptEvent assms(3) have "s' = s\<lparr>ts_sock_fd_to_client_addr := ts_sock_fd_to_client_addr s @ [(fd, addr)],
      ts_nonblocking := ts_nonblocking s @ [fd], ts_registered := ts_registered s @ [fd]\<rparr>"
    by (auto simp: accept_event_handler_def SetNonBlocking_def put_addr_def Let_def split: if_splits)
  with AcceptEvent assms(1,2) show ?thesis by (simp add: tcp_inv_def)
next
  case (ClientMsg fd r wr)
  show ?thesis
  proof (cases "r = ReadData []")
    case True
    have "mset (map fst (ts_sock_fd_to_client_addr s)) =
        add_mset fd (mset (filter (\<lambda>y. y \<noteq> fd) (map fst (ts_sock_fd_to_client_addr s))))"
      using assms(1,2) ClientMsg by (intro mset_remove_key) (simp_all add: tcp_inv_def)
    moreover have "s' = s\<lparr>ts_sock_fd_to_client_addr := filter (\<lambda>e. fst e \<noteq> fd) (ts_sock_fd_to_client_addr s),
        ts_closed := ts_closed s @ [fd]\<rparr>"
      using assms(3) ClientMsg True by (simp add: client_msg_handler_def)
    ultimately show ?thesis using assms(1) unfolding tcp_inv_def by (simp add: map_fst_filter_key)
  next
    case False
    then obtain w where "s' = s\<lparr>ts_written := w\<rparr>"
      using assms(3) ClientMsg
      by (auto simp: client_msg_handler_def forward_loop_eq split: read_result.splits if_splits intro: that [of "ts_written s"])
    with assms(1) show ?thesis by (simp add: tcp_inv_def)
  qed
qed

lemma tcp_inv_events: "tcp_inv s \<Longrightarrow> tcp_evs_ok evs s \<Longrightarrow> tcp_events evs s = Inr s' \<Longrightarrow> tcp_inv s'"
proof (induction evs arbitrary: s)
  case (Cons ev evs)
  then obtain s1 where "tcp_handle ev s = Inr s1" by (cases "tcp_handle ev s") simp_all
  with Cons show ?case using tcp_inv_event [of s ev s1] by simp
qed simp

lemma tcp_inv_start: "tcp_Start k port (TcpServer delim) = Inr (b, s) \<Longrightarrow> tcp_inv s"
  by (auto simp: tcp_Start_def ListenOn_def SetNonBlocking_def CreateEpoll_def AddListenSocketToEpoll_def Let_def
      TcpServer_def tcp_inv_def split: if_splits)

lemma filter_forwarded:
  assumes "distinct fds"
  shows "filter (\<lambda>w. fst w = fd) (forwarded wr sender msg fds) =
    (if fd \<noteq> sender \<and> fd \<in> set fds then [(fd, take (nat (wr fd msg)) msg)] else [])"
proof -
  have "filter (\<lambda>x. x = fd) fds = (if fd \<in> set fds then [fd] else [])"
    using assms by (induction fds) auto
  moreover have "filter (\<lambda>w. fst w = fd) (forwarded wr sender msg fds) =
      map (\<lambda>fd. (fd, take (nat (wr fd msg)) msg)) (filter (\<lambda>x. x \<noteq> sender) (filter (\<lambda>x. x = fd) fds))"
    by (simp add: forwarded_def filter_map comp_def conj_commute)
  ultimately show ?thesis by simp
qed

lemma read_messages_one: "message_ok m \<Longrightarrow> read_messages m = [m]"
proof -
  assume m: "message_ok m"
  then have "m \<noteq> [CHR 0x0A]" by (auto simp: message_ok_def)
  moreover have "takeWhile (\<lambda>x. x \<noteq> CHR 0x00) m = m"
    using m unfolding takeWhile_eq_all_conv message_ok_def by blast
  moreover have "split_on (CHR 0x0A) m = [m]" using m by (simp add: message_ok_def split_on_none)
  ultimately show ?thesis
    using m unfolding read_messages_def kept_pieces_def message_ok_def by (simp only:) simp
qed

fun tcp_waits_ok :: "(bool \<times> tcp_event list option) list \<Rightarrow> tcp_server \<Rightarrow> bool" where
  "tcp_waits_ok [] s \<longleftrightarrow> True"
| "tcp_waits_ok ((stopped, None) # ws) s \<longleftrightarrow> True"
| "tcp_waits_ok ((stopped, Some evs) # ws) s \<longleftrightarrow>
     tcp_evs_ok evs s \<and> (case tcp_events evs s of Inl _ \<Rightarrow> True | Inr s' \<Rightarrow> tcp_waits_ok ws s')"

lemma tcp_inv_stop: "tcp_inv (tcp_Stop s) = tcp_inv s"
  by (simp add: tcp_inv_def tcp_Stop_def)

lemma tcp_inv_loop: "tcp_inv s \<Longrightarrow> tcp_waits_ok ws s \<Longrightarrow> HandleEpollEvent ws s = Inr s' \<Longrightarrow> tcp_inv s'"
proof (induction ws s rule: tcp_waits_ok.induct)
  case (3 stopped evs ws s)
  show ?case
  proof (cases "stopped \<or> ts_is_stop s")
    case True
    with 3 have "s' = s \<or> s' = tcp_Stop s" by (auto simp: tcp_Stop_def split: if_splits)
    with 3 show ?thesis by (auto simp: tcp_inv_stop)
  next
    case False
    with 3 obtain s1 where s1: "tcp_events evs s = Inr s1" "HandleEpollEvent ws s1 = Inr s'"
      by (cases "tcp_events evs s") auto
    moreover have "tcp_inv s1" using 3 s1(1) tcp_inv_events by auto
    ultimately show ?thesis using 3 by auto
  qed
qed (auto simp: tcp_inv_stop Let_def split: if_splits)

text \<open>
  One client can stop the server for all: it exits as soon as a single write to another client
  fails, for whatever reason (a full socket buffer included, since the sockets do not block),
  and it goes on exactly when none does.
\<close>

lemma client_msg_handler_exit:
  assumes "msg \<noteq> []"
  shows "client_msg_handler sender (ReadData msg) wr s = Inl EXIT_FAILURE \<longleftrightarrow>
    (\<exists>fd \<in> fst ` set (ts_sock_fd_to_client_addr s). fd \<noteq> sender \<and> wr fd msg = - 1)"
  using assms by (auto simp: client_msg_handler_def forward_loop_eq list_all_iff)

subsection \<open>Properties\<close>



text \<open>
  (C28) The bookkeeping of clients is exact: as long as the server runs, the descriptors it
  registered with epoll are the listening socket, those of the clients it forwards to, each
  once, and those it has closed.
\<close>

theorem tcp_clients_consistent:
  assumes "tcp_Start k port (TcpServer delim) = Inr (True, start)" "tcp_waits_ok ws start"
    "HandleEpollEvent ws start = Inr s"
  shows "mset (ts_registered s) = {# ts_listen_sockfd s #} + mset (ts_closed s) + mset (map fst (ts_sock_fd_to_client_addr s)) \<and>
    distinct (map fst (ts_sock_fd_to_client_addr s))"
  using tcp_inv_loop [OF tcp_inv_start [OF assms(1)] assms(2,3)] by (simp add: tcp_inv_def)

theorem tcp_clients_consistent_witness:
  "\<exists>s. HandleEpollEvent [(False, Some [AcceptEvent 5 ''a'' 0 0 0, AcceptEvent 6 ''b'' 0 0 0]),
       (False, Some [ClientMsg 5 (ReadData []) (\<lambda>_ _. 0)]), (True, None)]
      (snd (projr (tcp_Start \<lparr> k_socket = 3, k_bind = 0, k_listen = 0, k_getfl = 2, k_setfl = 0, k_epoll_create = 4,
        k_epoll_ctl = 0 \<rparr> 80 (TcpServer [])))) = Inr s \<and>
    mset (ts_registered s) = {# ts_listen_sockfd s #} + mset (ts_closed s) + mset (map fst (ts_sock_fd_to_client_addr s)) \<and>
    ts_registered s = [3, 5, 6] \<and> ts_closed s = [5]"
proof -
  let ?k = "\<lparr> k_socket = 3, k_bind = 0, k_listen = 0, k_getfl = 2, k_setfl = 0, k_epoll_create = 4, k_epoll_ctl = 0 \<rparr>"
  let ?ws = "[(False, Some [AcceptEvent 5 ''a'' 0 0 0, AcceptEvent 6 ''b'' 0 0 0]),
       (False, Some [ClientMsg 5 (ReadData []) (\<lambda>_ _. 0)]), (True, None)]"
  let ?start = "\<lparr> ts_delim = [], ts_port = 80, ts_listen_sockfd = 3, ts_epoll_fd = 4, ts_is_stop = False,
     ts_sock_fd_to_client_addr = [], ts_nonblocking = [3], ts_registered = [3], ts_closed = [], ts_written = [] \<rparr>"
  let ?fin = "\<lparr> ts_delim = [], ts_port = 80, ts_listen_sockfd = 3, ts_epoll_fd = 4, ts_is_stop = True,
     ts_sock_fd_to_client_addr = [(6, ''b'')], ts_nonblocking = [3, 5, 6], ts_registered = [3, 5, 6], ts_closed = [5],
     ts_written = [] \<rparr>"
  note ev = accept_event_handler_def client_msg_handler_def SetNonBlocking_def put_addr_def Let_def tcp_Stop_def
  have start: "tcp_Start ?k 80 (TcpServer []) = Inr (True, ?start)"
    by (simp add: tcp_Start_def ListenOn_def SetNonBlocking_def CreateEpoll_def AddListenSocketToEpoll_def TcpServer_def)
  have "tcp_waits_ok ?ws ?start" "HandleEpollEvent ?ws ?start = Inr ?fin" by (simp_all add: ev)
  with tcp_clients_consistent [OF start, of ?ws ?fin] start show ?thesis by simp
qed

text \<open>
  (C29) The client's framing holds only for reads that end between messages.  A sequence of reads of
  complete messages is printed message by message; a message that arrives in two reads is printed
  as two; and a read that fills the buffer writes its terminator outside of it.
\<close>

theorem tcp_client_reads:
  assumes "\<not> tc_is_stop c"
  shows "(list_all (\<lambda>ms. ms \<noteq> [] \<and> list_all message_ok ms \<and> length (frames ms) < 4096) batches \<longrightarrow>
      recv_loop (map (\<lambda>ms. (False, SelectRead (ReadData (frames ms)))) batches) c =
        Inr (c\<lparr>tc_printed := tc_printed c @ concat batches\<rparr>)) \<and>
    (message_ok a \<and> message_ok b \<and> length a < 4096 \<and> length b < 4095 \<longrightarrow>
      recv_loop [(False, SelectRead (ReadData a)), (False, SelectRead (ReadData (b @ [CHR 0x0A])))] c =
        Inr (c\<lparr>tc_printed := tc_printed c @ [a, b]\<rparr>)) \<and>
    (length buffer = 4096 \<longrightarrow> recv_loop [(False, SelectRead (ReadData buffer))] c = Inl OUT_OF_BOUNDS)"
proof (intro conjI impI, goal_cases)
  case 1
  then have "list_all (\<lambda>b. b \<noteq> [] \<and> length b < kMaxBufferSize) (map frames batches)"
    by (auto simp: list_all_iff kMaxBufferSize_def frames_def)
  moreover have "list_all (list_all message_ok) batches" using 1 by (simp add: list_all_iff)
  ultimately show ?case
    using recv_loop_reads [OF assms, of "map frames batches"] newline.unframe_batches [of batches]
    by (simp add: comp_def frames_def)
next
  case 2
  then have "read_messages a = [a]" by (simp add: read_messages_one)
  moreover have "read_messages (b @ [CHR 0x0A]) = [b]"
    using newline.unframe_frames [of "[b]"] 2 by simp
  ultimately show ?case
    using recv_loop_reads [OF assms, of "[a, b @ [CHR 0x0A]]"] 2 by (simp add: kMaxBufferSize_def message_ok_def)
next
  case 3
  with assms show ?case
    by (auto simp: recv_round_def recv_data_def kMaxBufferSize_def)
qed

theorem tcp_client_reads_witness:
  "recv_loop (map (\<lambda>ms. (False, SelectRead (ReadData (frames ms)))) [[''a'', ''b''], [''c'']]) (TcpClient ''x'') =
     Inr ((TcpClient ''x'')\<lparr>tc_printed := [''a'', ''b'', ''c'']\<rparr>) \<and>
   recv_loop [(False, SelectRead (ReadData ''he'')), (False, SelectRead (ReadData (''llo'' @ [CHR 0x0A])))] (TcpClient ''x'') =
     Inr ((TcpClient ''x'')\<lparr>tc_printed := [''he'', ''llo'']\<rparr>) \<and>
   recv_loop [(False, SelectRead (ReadData (replicate 4096 (CHR ''a''))))] (TcpClient ''x'') = Inl OUT_OF_BOUNDS"
proof -
  have c: "\<not> tc_is_stop (TcpClient ''x'')" "tc_printed (TcpClient ''x'') = []" by (simp_all add: TcpClient_def)
  show ?thesis
    using tcp_client_reads [OF c(1), of "[[''a'', ''b''], [''c'']]" "''he''" "''llo''" "replicate 4096 (CHR ''a'')"] c(2)
    by (simp add: message_ok_def frames_def)
qed

end
