(* ===== verification/File_Appender.thy ===== *)
theory File_Appender
  imports Cxx_Text
begin

text \<open>
  The rotating log file of \<^verbatim>\<open>src/logger/file_appender.cc\<close>.  The file system maps paths to contents; the
  clock is the broken-down local time, and whether \<open>mkdir\<close>, \<open>rename\<close> and \<open>open\<close> succeed is given with each
  call.  The two locked sections are executed as a whole; lines are written already formatted
  (formatting is part of the theory of the logger).
\<close>

type_synonym fs = "string \<Rightarrow> string option"

record tm =
  tm_sec :: int
  tm_min :: int
  tm_hour :: int
  tm_mday :: int
  tm_mon :: int
  tm_year :: int

record file_appender =
  fa_stream_open :: bool
  fa_dir :: string
  fa_name :: string
  fa_path :: string
  fa_retain_hours :: int
  fa_last_hour_suffix :: int
  fa_is_cut :: bool
  fa_history_files :: "int list"

text \<open>The history is a \<open>std::set\<close>: its elements in ascending order.\<close>

definition kFileAppenderBuffSize :: nat where
  "kFileAppenderBuffSize = 4096"

definition FileAppender :: "string \<Rightarrow> string \<Rightarrow> int \<Rightarrow> bool \<Rightarrow> file_appender" where
  "FileAppender dir file_name retain_hours is_cut =
     (let file_dir = (if dir = [] then ''.'' else dir) in
      \<lparr> fa_stream_open = False, fa_dir = file_dir, fa_name = file_name, fa_path = file_dir @ ''/'' @ file_name,
        fa_retain_hours = retain_hours, fa_last_hour_suffix = - 1, fa_is_cut = is_cut, fa_history_files = [] \<rparr>)"

text \<open>Opening for appending creates the file when it is missing.\<close>

definition open_app :: "bool \<Rightarrow> string \<Rightarrow> fs \<Rightarrow> bool \<times> fs" where
  "open_app ok path f = (if ok then (True, (case f path of None \<Rightarrow> f(path \<mapsto> []) | Some _ \<Rightarrow> f)) else (False, f))"

definition fs_rename :: "bool \<Rightarrow> string \<Rightarrow> string \<Rightarrow> fs \<Rightarrow> int \<times> fs" where
  "fs_rename ok old new f =
     (case f old of None \<Rightarrow> (- 1, f) | Some c \<Rightarrow> if ok then (0, f(old := None, new \<mapsto> c)) else (- 1, f))"

definition GenHourSuffix :: "tm \<Rightarrow> int" where
  "GenHourSuffix t = tm_hour t + tm_mday t * 100 + (tm_mon t + 1) * 10000 + (tm_year t + 1900) * 1000000"

text \<open>\<open>Init\<close>: the result of \<open>mkdir\<close> (0 or an error), whether that error is \<open>EEXIST\<close>, whether the file opens.\<close>

definition fa_Init :: "int \<Rightarrow> bool \<Rightarrow> bool \<Rightarrow> tm \<Rightarrow> file_appender \<Rightarrow> fs \<Rightarrow> bool \<times> file_appender \<times> fs" where
  "fa_Init mkdir_ret eexist opens now a f =
     (if mkdir_ret \<noteq> 0 \<and> \<not> eexist then (False, a, f)
      else let (opened, f1) = open_app opens (fa_path a) f in
           (True, a\<lparr>fa_stream_open := opened, fa_last_hour_suffix := GenHourSuffix now\<rparr>, f1))"

definition suffixed :: "string \<Rightarrow> int \<Rightarrow> string" where
  "suffixed path hour = path @ ''.'' @ int_str hour"

text \<open>The loop over the history: overdue entries are removed from the set and from the disk.\<close>

fun overdue_loop :: "file_appender \<Rightarrow> int \<Rightarrow> int list \<Rightarrow> fs \<Rightarrow> int list \<times> fs" where
  "overdue_loop a now_hour_suffix [] f = ([], f)"
| "overdue_loop a now_hour_suffix (hour_suffix # hs) f =
     (if now_hour_suffix > hour_suffix + fa_retain_hours a
      then overdue_loop a now_hour_suffix hs (f(suffixed (fa_path a) hour_suffix := None))
      else let (kept, f') = overdue_loop a now_hour_suffix hs f in (hour_suffix # kept, f'))"

definition DeleteOverdueFile :: "int \<Rightarrow> file_appender \<Rightarrow> fs \<Rightarrow> file_appender \<times> fs" where
  "DeleteOverdueFile now_hour_suffix a f =
     (if fa_retain_hours a \<le> 0 then (a, f)
      else let (kept, f') = overdue_loop a now_hour_suffix (fa_history_files a) f in
           (a\<lparr>fa_history_files := kept\<rparr>, f'))"

text \<open>The outcomes of the calls made when a file is cut.\<close>

record fa_env =
  fe_now :: tm
  fe_rename_ok :: bool
  fe_open_ok :: bool

definition CutIfNeed :: "fa_env \<Rightarrow> file_appender \<Rightarrow> fs \<Rightarrow> file_appender \<times> fs" where
  "CutIfNeed e a f =
     (if \<not> fa_is_cut a then (a, f)
      else
        let now_hour_suffix = GenHourSuffix (fe_now e) in
        if now_hour_suffix > fa_last_hour_suffix a then
          let new_file_path = suffixed (fa_path a) (fa_last_hour_suffix a);
              (ret, f1) = fs_rename (fe_rename_ok e) (fa_path a) new_file_path f;
              (opened, f2) = open_app (fe_open_ok e) (fa_path a) f1;
              a1 = a\<lparr>fa_stream_open := opened\<rparr>;
              (a2, f3) = (if fa_retain_hours a1 > 0
                then DeleteOverdueFile now_hour_suffix
                       (a1\<lparr>fa_history_files := insort_insert (fa_last_hour_suffix a1) (fa_history_files a1)\<rparr>) f2
                else (a1, f2))
          in (a2\<lparr>fa_last_hour_suffix := now_hour_suffix\<rparr>, f3)
        else (a, f))"

text \<open>\<open>Write\<close>: the formatted text, cut to the buffer as \<open>vsnprintf\<close> does, and a newline.\<close>

definition log_line :: "string \<Rightarrow> string" where
  "log_line str = take (kFileAppenderBuffSize - 1) str @ [CHR 0x0A]"

definition fa_Write :: "fa_env \<Rightarrow> string \<Rightarrow> file_appender \<Rightarrow> fs \<Rightarrow> file_appender \<times> fs" where
  "fa_Write e str a f =
     (let (a1, f1) = CutIfNeed e a f in
      if fa_stream_open a1 then
        (a1, f1(fa_path a1 \<mapsto> (case f1 (fa_path a1) of None \<Rightarrow> [] | Some c \<Rightarrow> c) @ log_line str))
      else (a1, f1))"

subsection \<open>Rotation\<close>

text \<open>A run of the appender: the lines written, each with the calls' outcomes.\<close>

fun writes :: "(fa_env \<times> string) list \<Rightarrow> file_appender \<Rightarrow> fs \<Rightarrow> file_appender \<times> fs" where
  "writes [] a f = (a, f)"
| "writes ((e, str) # ws) a f = (let (a1, f1) = fa_Write e str a f in writes ws a1 f1)"

text \<open>The hours whose file is cut off during a run that starts in hour \<open>cur\<close>.\<close>

fun cut_hours :: "int \<Rightarrow> int list \<Rightarrow> int list" where
  "cut_hours cur [] = []"
| "cut_hours cur (h # hs) = (if h > cur then cur # cut_hours h hs else cut_hours cur hs)"

definition contents :: "fs \<Rightarrow> string \<Rightarrow> string" where
  "contents f path = (case f path of None \<Rightarrow> [] | Some c \<Rightarrow> c)"

lemma int_str_inj: "0 \<le> i \<Longrightarrow> 0 \<le> j \<Longrightarrow> int_str i = int_str j \<longleftrightarrow> i = j"
  by (auto simp: int_str_def nat_str_inj)

lemma suffixed_inj: "0 \<le> i \<Longrightarrow> 0 \<le> j \<Longrightarrow> suffixed p i = suffixed p j \<longleftrightarrow> i = j"
  by (simp add: suffixed_def int_str_inj)

lemma suffixed_neq [simp]: "suffixed p i \<noteq> p" "p \<noteq> suffixed p i"
  by (simp_all add: suffixed_def)

text \<open>An open appender that cuts and keeps everything; the current file exists.\<close>

definition keeping :: "file_appender \<Rightarrow> fs \<Rightarrow> bool" where
  "keeping a f \<longleftrightarrow> fa_stream_open a \<and> fa_is_cut a \<and> fa_retain_hours a \<le> 0 \<and> f (fa_path a) \<noteq> None"

definition env_ok :: "fa_env \<Rightarrow> bool" where
  "env_ok e \<longleftrightarrow> fe_rename_ok e \<and> fe_open_ok e"

lemma cut_file:
  assumes "f p = Some c"
  shows "fs_rename True p (suffixed p h) f = (0, f(p := None, suffixed p h \<mapsto> c))"
    "open_app True p (f(p := None, suffixed p h \<mapsto> c)) = (True, f(suffixed p h \<mapsto> c, p \<mapsto> []))"
proof -
  show "fs_rename True p (suffixed p h) f = (0, f(p := None, suffixed p h \<mapsto> c))"
    using assms by (simp add: fs_rename_def)
  have "(f(p := None, suffixed p h \<mapsto> c)) p = None" by simp
  then have "open_app True p (f(p := None, suffixed p h \<mapsto> c)) = (True, f(p := None, suffixed p h \<mapsto> c, p \<mapsto> []))"
    by (simp add: open_app_def)
  then show "open_app True p (f(p := None, suffixed p h \<mapsto> c)) = (True, f(suffixed p h \<mapsto> c, p \<mapsto> []))"
    by (simp add: fun_upd_twist)
qed

lemma fa_Write_same_hour:
  assumes "keeping a f" "GenHourSuffix (fe_now e) \<le> fa_last_hour_suffix a"
  shows "fa_Write e str a f = (a, f(fa_path a \<mapsto> contents f (fa_path a) @ log_line str))"
  using assms by (simp add: fa_Write_def CutIfNeed_def keeping_def contents_def)

lemma fa_Write_new_hour:
  assumes "keeping a f" "env_ok e" "GenHourSuffix (fe_now e) > fa_last_hour_suffix a"
  shows "fa_Write e str a f =
    (a\<lparr>fa_last_hour_suffix := GenHourSuffix (fe_now e)\<rparr>,
     f(suffixed (fa_path a) (fa_last_hour_suffix a) \<mapsto> contents f (fa_path a), fa_path a \<mapsto> log_line str))"
proof -
  obtain c where c: "f (fa_path a) = Some c" using assms(1) by (auto simp: keeping_def)
  have "a\<lparr>fa_stream_open := True\<rparr> = a" using assms(1) by (simp add: keeping_def)
  with c assms show ?thesis
    by (simp add: fa_Write_def CutIfNeed_def keeping_def env_ok_def contents_def Let_def cut_file)
qed

lemma writes_archive:
  assumes "keeping a f" "list_all (\<lambda>w. env_ok (fst w)) ws" "0 \<le> fa_last_hour_suffix a"
    "\<forall>h \<ge> fa_last_hour_suffix a. f (suffixed (fa_path a) h) = None"
  shows "\<exists>a' f'. writes ws a f = (a', f') \<and> fa_path a' = fa_path a \<and>
    (\<forall>p. p \<noteq> fa_path a \<longrightarrow> p \<notin> suffixed (fa_path a) ` {fa_last_hour_suffix a..} \<longrightarrow> f' p = f p) \<and>
    concat (map (\<lambda>h. contents f' (suffixed (fa_path a) h)) (cut_hours (fa_last_hour_suffix a)
        (map (\<lambda>w. GenHourSuffix (fe_now (fst w))) ws))) @ contents f' (fa_path a) =
      contents f (fa_path a) @ concat (map (\<lambda>w. log_line (snd w)) ws)"
  using assms
proof (induction ws arbitrary: a f)
  case (Cons w ws)
  obtain e str where w: "w = (e, str)" by fastforce
  let ?p = "fa_path a" and ?cur = "fa_last_hour_suffix a" and ?h = "GenHourSuffix (fe_now e)"
  have e: "env_ok e" "list_all (\<lambda>w. env_ok (fst w)) ws" using Cons.prems(2) w by simp_all
  show ?case
  proof (cases "?h > ?cur")
    case False
    let ?f = "f(?p \<mapsto> contents f ?p @ log_line str)"
    have "keeping a ?f" using Cons.prems(1) by (simp add: keeping_def)
    moreover have "\<forall>h \<ge> ?cur. ?f (suffixed ?p h) = None" using Cons.prems(4) by simp
    ultimately obtain a' f' where "writes ws a ?f = (a', f')" "fa_path a' = ?p"
      "\<forall>p. p \<noteq> ?p \<longrightarrow> p \<notin> suffixed ?p ` {?cur..} \<longrightarrow> f' p = ?f p"
      "concat (map (\<lambda>h. contents f' (suffixed ?p h)) (cut_hours ?cur (map (\<lambda>w. GenHourSuffix (fe_now (fst w))) ws)))
        @ contents f' ?p = contents ?f ?p @ concat (map (\<lambda>w. log_line (snd w)) ws)"
      using Cons.IH [OF _ e(2) Cons.prems(3)] by blast
    moreover have "fa_Write e str a f = (a, ?f)" using fa_Write_same_hour [OF Cons.prems(1)] False by simp
    ultimately show ?thesis using False by (simp add: w contents_def)
  next
    case True
    let ?a = "a\<lparr>fa_last_hour_suffix := ?h\<rparr>"
    let ?f = "f(suffixed ?p ?cur \<mapsto> contents f ?p, ?p \<mapsto> log_line str)"
    have k: "keeping ?a ?f" using Cons.prems(1) by (simp add: keeping_def)
    have old: "suffixed ?p ?cur \<notin> suffixed ?p ` {?h..}"
      using True Cons.prems(3) by (auto simp: suffixed_inj)
    then have "\<forall>h \<ge> ?h. suffixed ?p h \<noteq> suffixed ?p ?cur" by (metis atLeast_iff image_eqI)
    then have none: "\<forall>h \<ge> fa_last_hour_suffix ?a. ?f (suffixed (fa_path ?a) h) = None"
      using Cons.prems(4) True by simp
    have "0 \<le> fa_last_hour_suffix ?a" using Cons.prems(3) True by simp
    have upd: "fa_path ?a = ?p" "fa_last_hour_suffix ?a = ?h" by simp_all
    from Cons.IH [OF k e(2) \<open>0 \<le> fa_last_hour_suffix ?a\<close> none, unfolded upd] obtain a' f' where IH: "writes ws ?a ?f = (a', f')" "fa_path a' = ?p"
      "\<forall>p. p \<noteq> ?p \<longrightarrow> p \<notin> suffixed ?p ` {?h..} \<longrightarrow> f' p = ?f p"
      "concat (map (\<lambda>h. contents f' (suffixed ?p h)) (cut_hours ?h (map (\<lambda>w. GenHourSuffix (fe_now (fst w))) ws)))
        @ contents f' ?p = contents ?f ?p @ concat (map (\<lambda>w. log_line (snd w)) ws)"
      by blast
    have "contents f' (suffixed ?p ?cur) = contents f ?p"
      using IH(3) old by (simp add: contents_def)
    moreover have "f' p = f p" if "p \<noteq> ?p" "p \<notin> suffixed ?p ` {?cur..}" for p
    proof -
      have "p \<notin> suffixed ?p ` {?h..}" "p \<noteq> suffixed ?p ?cur" using that True by auto
      then show ?thesis using IH(3) that(1) by simp
    qed
    moreover have "fa_Write e str a f = (?a, ?f)" using fa_Write_new_hour [OF Cons.prems(1) e(1) True] by simp
    ultimately show ?thesis using IH(1,2,4) True by (simp add: w contents_def)
  qed
qed simp

subsection \<open>Retention\<close>

lemma overdue_loop_eq:
  "overdue_loop a now hs f =
     (filter (\<lambda>h. now \<le> h + fa_retain_hours a) hs,
      (\<lambda>p. if p \<in> suffixed (fa_path a) ` {h \<in> set hs. now > h + fa_retain_hours a} then None else f p))"
proof (induction hs arbitrary: f)
  case (Cons h hs)
  then show ?case by (auto simp: fun_eq_iff)
qed simp

lemma DeleteOverdueFile_eq:
  assumes "0 < fa_retain_hours a"
  shows "DeleteOverdueFile now a f =
    (a\<lparr>fa_history_files := filter (\<lambda>h. now \<le> h + fa_retain_hours a) (fa_history_files a)\<rparr>,
     (\<lambda>p. if p \<in> suffixed (fa_path a) ` {h \<in> set (fa_history_files a). now > h + fa_retain_hours a} then None else f p))"
  using assms by (simp add: DeleteOverdueFile_def overdue_loop_eq)

text \<open>What a cut with a retention time does to history and files.\<close>

lemma CutIfNeed_retain:
  assumes "fa_is_cut a" "0 < fa_retain_hours a" "fa_last_hour_suffix a < GenHourSuffix (fe_now e)" "env_ok e"
    "f (fa_path a) = Some c"
  shows "fa_history_files (fst (CutIfNeed e a f)) =
      filter (\<lambda>h. GenHourSuffix (fe_now e) \<le> h + fa_retain_hours a)
        (insort_insert (fa_last_hour_suffix a) (fa_history_files a))"
    "snd (CutIfNeed e a f) =
      (\<lambda>p. if p \<in> suffixed (fa_path a) ` {h \<in> insert (fa_last_hour_suffix a) (set (fa_history_files a)).
                GenHourSuffix (fe_now e) > h + fa_retain_hours a} then None
           else (f(suffixed (fa_path a) (fa_last_hour_suffix a) \<mapsto> c, fa_path a \<mapsto> [])) p)"
  using assms
  by (simp_all add: CutIfNeed_def env_ok_def cut_file Let_def DeleteOverdueFile_eq set_insort_insert)

subsection \<open>Properties\<close>

text \<open>
  (C8) Rotation loses nothing.  An appender without retention time, started on any file, cuts its
  file at every change of the hour; after any sequence of writes the files cut off, in order,
  followed by the current file hold the old contents followed by every line written (each cut
  to the buffer size), and no other file has changed.
\<close>

theorem log_rotation_keeps_every_line:
  assumes "fa_Init 0 False True now (FileAppender dir file_name retain_hours True) f = (True, a, f1)" "retain_hours \<le> 0"
    "list_all (\<lambda>w. env_ok (fst w)) ws" "0 \<le> GenHourSuffix now"
    "\<forall>h \<ge> GenHourSuffix now. f (suffixed (fa_path a) h) = None"
  shows "\<exists>a' f'. writes ws a f1 = (a', f') \<and>
    concat (map (\<lambda>h. contents f' (suffixed (fa_path a) h)) (cut_hours (GenHourSuffix now)
        (map (\<lambda>w. GenHourSuffix (fe_now (fst w))) ws))) @ contents f' (fa_path a) =
      contents f (fa_path a) @ concat (map (\<lambda>w. log_line (snd w)) ws) \<and>
    (\<forall>p. p \<noteq> fa_path a \<longrightarrow> p \<notin> suffixed (fa_path a) ` {GenHourSuffix now..} \<longrightarrow> f' p = f p)"
proof -
  have init: "fa_last_hour_suffix a = GenHourSuffix now" "keeping a f1" "contents f1 (fa_path a) = contents f (fa_path a)"
    "f1 p = f p \<or> p = fa_path a" for p
    using assms(1,2)
    by (auto simp: fa_Init_def FileAppender_def open_app_def keeping_def contents_def Let_def split: option.splits)
  have "\<forall>h \<ge> fa_last_hour_suffix a. f1 (suffixed (fa_path a) h) = None"
    using assms(5) init(1,4) by (metis suffixed_neq(1))
  from writes_archive [OF init(2) assms(3) _ this] show ?thesis
    using assms(4) init by (metis (no_types, lifting))
qed

theorem log_rotation_keeps_every_line_witness:
  "\<exists>a' f'. writes
       [(\<lparr> fe_now = \<lparr> tm_sec = 0, tm_min = 0, tm_hour = 8, tm_mday = 2, tm_mon = 3, tm_year = 122 \<rparr>, fe_rename_ok = True,
           fe_open_ok = True \<rparr>, ''first''),
        (\<lparr> fe_now = \<lparr> tm_sec = 0, tm_min = 0, tm_hour = 9, tm_mday = 2, tm_mon = 3, tm_year = 122 \<rparr>, fe_rename_ok = True,
           fe_open_ok = True \<rparr>, ''second'')]
       (fst (snd (fa_Init 0 False True \<lparr> tm_sec = 0, tm_min = 0, tm_hour = 8, tm_mday = 2, tm_mon = 3, tm_year = 122 \<rparr>
         (FileAppender [] ''log'' 0 True) (\<lambda>_. None))))
       (snd (snd (fa_Init 0 False True \<lparr> tm_sec = 0, tm_min = 0, tm_hour = 8, tm_mday = 2, tm_mon = 3, tm_year = 122 \<rparr>
         (FileAppender [] ''log'' 0 True) (\<lambda>_. None)))) = (a', f') \<and>
     contents f' (suffixed ''./log'' 2022040208) @ contents f' ''./log'' = log_line ''first'' @ log_line ''second''"
proof -
  let ?t8 = "\<lparr> tm_sec = 0, tm_min = 0, tm_hour = 8, tm_mday = 2, tm_mon = 3, tm_year = 122 \<rparr>"
  let ?t9 = "\<lparr> tm_sec = 0, tm_min = 0, tm_hour = 9, tm_mday = 2, tm_mon = 3, tm_year = 122 \<rparr>"
  let ?ws = "[(\<lparr> fe_now = ?t8, fe_rename_ok = True, fe_open_ok = True \<rparr>, ''first''),
    (\<lparr> fe_now = ?t9, fe_rename_ok = True, fe_open_ok = True \<rparr>, ''second'')]"
  let ?i = "fa_Init 0 False True ?t8 (FileAppender [] ''log'' 0 True) (\<lambda>_. None)"
  have i: "?i = (True, fst (snd ?i), snd (snd ?i))" "fa_path (fst (snd ?i)) = ''./log''"
    by (simp_all add: fa_Init_def FileAppender_def open_app_def)
  have t: "GenHourSuffix ?t8 = 2022040208" "GenHourSuffix ?t9 = 2022040209" by (simp_all add: GenHourSuffix_def)
  have "list_all (\<lambda>w. env_ok (fst w)) ?ws" by (simp add: env_ok_def)
  from log_rotation_keeps_every_line [OF i(1) _ this] show ?thesis
    unfolding i(2) by (simp add: t contents_def del: writes.simps) blast
qed

text \<open>
  (C30) Retention ends at midnight.  Hours are compared as numbers \<open>yyyymmddhh\<close>, so with any retention
  time below 77 hours the cut at midnight deletes the file of the hour that has just ended, together with
  every older one of the history, instead of keeping it for \<open>retain_hours\<close>.
\<close>

theorem log_retention_midnight:
  assumes "fa_is_cut a" "0 < fa_retain_hours a" "fa_retain_hours a < 77" "env_ok e" "f (fa_path a) = Some c"
    "tm_hour t = 23" "tm_hour (fe_now e) = 0" "tm_mday (fe_now e) = tm_mday t + 1" "tm_mon (fe_now e) = tm_mon t"
    "tm_year (fe_now e) = tm_year t" "fa_last_hour_suffix a = GenHourSuffix t" "\<forall>h \<in> set (fa_history_files a). h \<le> GenHourSuffix t"
  shows "snd (CutIfNeed e a f) (suffixed (fa_path a) (GenHourSuffix t)) = None \<and>
    fa_history_files (fst (CutIfNeed e a f)) = []"
proof -
  have now: "GenHourSuffix (fe_now e) = GenHourSuffix t + 77" using assms by (simp add: GenHourSuffix_def)
  then have gt: "fa_last_hour_suffix a < GenHourSuffix (fe_now e)" using assms(11) by simp
  have "\<forall>h \<in> insert (GenHourSuffix t) (set (fa_history_files a)). h + fa_retain_hours a < GenHourSuffix (fe_now e)"
    using now assms(3,12) by auto
  with CutIfNeed_retain [where f = f and c = c, OF assms(1,2) gt assms(4,5)] assms(11) show ?thesis
    by (auto simp: filter_empty_conv set_insort_insert not_le)
qed

theorem log_retention_midnight_witness:
  "snd (CutIfNeed \<lparr> fe_now = \<lparr> tm_sec = 0, tm_min = 0, tm_hour = 0, tm_mday = 3, tm_mon = 3, tm_year = 122 \<rparr>,
       fe_rename_ok = True, fe_open_ok = True \<rparr>
     ((FileAppender [] ''log'' 4 True)\<lparr>fa_stream_open := True, fa_last_hour_suffix := 2022040223\<rparr>)
     [''./log'' \<mapsto> ''lines of the last hour'']) (suffixed ''./log'' 2022040223) = None"
proof -
  let ?t = "\<lparr> tm_sec = 0, tm_min = 0, tm_hour = 23, tm_mday = 2, tm_mon = 3, tm_year = 122 \<rparr>"
  let ?e = "\<lparr> fe_now = \<lparr> tm_sec = 0, tm_min = 0, tm_hour = 0, tm_mday = 3, tm_mon = 3, tm_year = 122 \<rparr>,
       fe_rename_ok = True, fe_open_ok = True \<rparr>"
  let ?a = "(FileAppender [] ''log'' 4 True)\<lparr>fa_stream_open := True, fa_last_hour_suffix := 2022040223\<rparr>"
  have t: "GenHourSuffix ?t = 2022040223" by (simp add: GenHourSuffix_def)
  have a: "fa_is_cut ?a" "fa_retain_hours ?a = 4" "fa_path ?a = ''./log''" "fa_history_files ?a = []"
    by (simp_all add: FileAppender_def)
  from log_retention_midnight [of ?a ?e "[''./log'' \<mapsto> ''lines of the last hour'']" "''lines of the last hour''" ?t] a t
  show ?thesis by (simp add: env_ok_def)
qed

end
