(* ===== verification/Logger.thy ===== *)
theory Logger
  imports File_Appender
begin

text \<open>
  The logger of \<^verbatim>\<open>src/logger/logger.cc\<close>, \<^verbatim>\<open>logger.h\<close>, the macros of \<^verbatim>\<open>log.h\<close>, the stream and key-value
  front ends \<^verbatim>\<open>log_capture.cc\<close> and \<^verbatim>\<open>log_kv.cc\<close>, and the frames of \<^verbatim>\<open>backtrace.cc\<close>.  Formats are interpreted
  for the conversions the library itself uses; any other use of \<open>%\<close> is undefined (\<^const>\<open>None\<close>).
\<close>

subsection \<open>Levels\<close>

datatype level = DEBUG_LEVEL | INFO_LEVEL | WARN_LEVEL | ERROR_LEVEL | FATAL_LEVEL

fun level_int :: "level \<Rightarrow> int" where
  "level_int DEBUG_LEVEL = 0"
| "level_int INFO_LEVEL = 1"
| "level_int WARN_LEVEL = 2"
| "level_int ERROR_LEVEL = 3"
| "level_int FATAL_LEVEL = 4"

instantiation level :: linorder
begin

definition less_eq_level :: "level \<Rightarrow> level \<Rightarrow> bool" where
  "less_eq_level a b \<longleftrightarrow> level_int a \<le> level_int b"

definition less_level :: "level \<Rightarrow> level \<Rightarrow> bool" where
  "less_level a b \<longleftrightarrow> level_int a < level_int b"

instance
proof
  fix x y z :: level
  show "x < y \<longleftrightarrow> x \<le> y \<and> \<not> y \<le> x" by (auto simp: less_eq_level_def less_level_def)
  show "x \<le> x" by (simp add: less_eq_level_def)
  show "x \<le> z" if "x \<le> y" "y \<le> z" using that by (simp add: less_eq_level_def)
  show "x = y" if "x \<le> y" "y \<le> x" using that by (cases x; cases y) (simp_all add: less_eq_level_def)
  show "x \<le> y \<or> y \<le> x" by (auto simp: less_eq_level_def)
qed

end

definition level_of :: "int \<Rightarrow> level" where
  "level_of i = (if i = 0 then DEBUG_LEVEL else if i = 1 then INFO_LEVEL else if i = 2 then WARN_LEVEL
     else if i = 3 then ERROR_LEVEL else FATAL_LEVEL)"

fun kLevel2Description :: "level \<Rightarrow> string" where
  "kLevel2Description DEBUG_LEVEL = ''[DEBUG]''"
| "kLevel2Description INFO_LEVEL = ''[INFO]''"
| "kLevel2Description WARN_LEVEL = ''[WARN]''"
| "kLevel2Description ERROR_LEVEL = ''[ERROR]''"
| "kLevel2Description FATAL_LEVEL = ''[FATAL]''"

subsection \<open>Formats\<close>

datatype farg = ArgS string | ArgD int

text \<open>\<open>vsnprintf\<close> with \<open>%s\<close>, \<open>%d\<close> and \<open>%%\<close>; a conversion without its argument or of another kind is undefined.\<close>

fun vformat :: "string \<Rightarrow> farg list \<Rightarrow> string option" where
  "vformat [] args = Some []"
| "vformat (c # cs) args =
     (if c \<noteq> CHR 0x25 then map_option (Cons c) (vformat cs args)
      else case cs of
             [] \<Rightarrow> None
           | d # ds \<Rightarrow>
               if d = CHR 0x25 then map_option (Cons d) (vformat ds args)
               else if d = CHR ''s'' then
                 (case args of ArgS x # rest \<Rightarrow> map_option ((@) x) (vformat ds rest) | _ \<Rightarrow> None)
               else if d = CHR ''d'' then
                 (case args of ArgD i # rest \<Rightarrow> map_option ((@) (int_str i)) (vformat ds rest) | _ \<Rightarrow> None)
               else None)"

text \<open>\<open>%0wd\<close> and \<open>%lx\<close>, of the prefix.\<close>

definition pad :: "nat \<Rightarrow> int \<Rightarrow> string" where
  "pad w i = (if i < 0 then CHR ''-'' # replicate (w - 1 - length (int_str (- i))) (CHR ''0'') @ int_str (- i)
     else replicate (w - length (int_str i)) (CHR ''0'') @ int_str i)"

definition hex_digit :: "nat \<Rightarrow> char" where
  "hex_digit n = (if n < 10 then char_of (48 + n) else char_of (87 + n))"

fun hex_str :: "nat \<Rightarrow> string" where
  "hex_str n = (if n < 16 then [hex_digit n] else hex_str (n div 16) @ [hex_digit (n mod 16)])"

declare hex_str.simps [simp del]

subsection \<open>State\<close>

record trace_ids =
  t_pid :: int
  t_traceid :: "64 word"

record logger =
  lg_is_console_output :: bool
  lg_file_appender :: "file_appender option"
  lg_crash_file_appender :: "file_appender option"
  lg_priority :: level
  lg_receive_fatal :: bool

text \<open>The outside of a logger: files, console output, and whether \<open>exit\<close> was called.\<close>

record log_world =
  lw_fs :: fs
  lw_console :: string
  lw_exited :: bool

definition Logger :: logger where
  "Logger = \<lparr> lg_is_console_output = True, lg_file_appender = None, lg_crash_file_appender = None,
     lg_priority = DEBUG_LEVEL, lg_receive_fatal = False \<rparr>"

definition set_trace_id :: "64 word \<Rightarrow> 64 word \<Rightarrow> trace_ids \<Rightarrow> trace_ids" where
  "set_trace_id generated trace_id t = (if trace_id = 0 then t\<lparr>t_traceid := generated\<rparr> else t\<lparr>t_traceid := trace_id\<rparr>)"

definition trace_id :: "trace_ids \<Rightarrow> 64 word" where
  "trace_id t = t_traceid t"

definition GenLogPrefix :: "tm \<Rightarrow> int \<Rightarrow> trace_ids \<Rightarrow> string" where
  "GenLogPrefix now usec t =
     take 99 (''['' @ pad 4 (tm_year now + 1900) @ ''-'' @ pad 2 (tm_mon now + 1) @ ''-'' @ pad 2 (tm_mday now) @ '' '' @
       pad 2 (tm_hour now) @ '':'' @ pad 2 (tm_min now) @ '':'' @ pad 2 (tm_sec now) @ ''.'' @ pad 6 usec @ ''][''
       @ int_str (t_pid t) @ '':'' @ hex_str (unat (t_traceid t)) @ '']'')"

subsection \<open>Configuration\<close>

text \<open>The parsed file, by the keys \<open>Init\<close> asks for; \<^const>\<open>None\<close> where a key is missing or of another type.\<close>

record log_conf =
  cf_Level :: "int option"
  cf_Directory :: "string option"
  cf_FileName :: "string option"
  cf_RetainHours :: "int option"

definition ParseTomlValue :: "'a option \<Rightarrow> 'a \<Rightarrow> bool \<times> 'a" where
  "ParseTomlValue val v = (case val of None \<Rightarrow> (False, v) | Some x \<Rightarrow> (True, x))"

text \<open>The results of \<open>mkdir\<close>, whether it reports an existing directory, and of opening each file.\<close>

record init_env =
  ie_mkdir :: int
  ie_eexist :: bool
  ie_open :: bool
  ie_open_fatal :: bool
  ie_now :: tm

definition Init :: "init_env \<Rightarrow> log_conf option \<Rightarrow> logger \<Rightarrow> fs \<Rightarrow> bool \<times> logger \<times> fs" where
  "Init e conf l f =
     (case conf of
        None \<Rightarrow> (False, l, f)
      | Some g \<Rightarrow>
          let (has_level, lvl) = ParseTomlValue (cf_Level g) 0;
              l1 = (if has_level \<and> level_int DEBUG_LEVEL \<le> lvl \<and> lvl \<le> level_int ERROR_LEVEL
                    then l\<lparr>lg_priority := level_of lvl\<rparr> else l);
              dir = snd (ParseTomlValue (cf_Directory g) ''./log'');
              (has_name, file_name) = ParseTomlValue (cf_FileName g) []
          in if \<not> has_name then (False, l1, f)
             else
               let retain_hours = snd (ParseTomlValue (cf_RetainHours g) 0);
                   (ok, a, f1) = fa_Init (ie_mkdir e) (ie_eexist e) (ie_open e) (ie_now e)
                     (FileAppender dir file_name retain_hours True) f;
                   l2 = l1\<lparr>lg_file_appender := Some a\<rparr>
               in if \<not> ok then (False, l2, f1)
                  else
                    let (ok', a', f2) = fa_Init (ie_mkdir e) (ie_eexist e) (ie_open_fatal e) (ie_now e)
                          (FileAppender dir (file_name @ ''.fatal'') 0 False) f1;
                        l3 = l2\<lparr>lg_crash_file_appender := Some a'\<rparr>
                    in if \<not> ok' then (False, l3, f2) else (True, l3\<lparr>lg_is_console_output := False\<rparr>, f2))"

subsection \<open>Frames\<close>

definition kMaxStackFrames :: nat where
  "kMaxStackFrames = 128"

text \<open>A frame as libbacktrace reports it: file, line and (demangled) function where known.\<close>

definition StackDumper_Backtrace ::
    "string option \<Rightarrow> int \<Rightarrow> string option \<Rightarrow> nat \<Rightarrow> string list \<Rightarrow> int \<times> nat \<times> string list" where
  "StackDumper_Backtrace file line func count stacks =
     (if file = None \<and> func = None then (0, count, stacks)
      else if count \<ge> kMaxStackFrames
      then (- 1, count, stacks @ [''#'' @ nat_str count @ '' [reach max stack frames, truncated]''])
      else (0, count + 1, stacks @ [''#'' @ nat_str count @ '' ['' @ (case file of None \<Rightarrow> ''???'' | Some x \<Rightarrow> x) @ '':'' @
        int_str line @ ''][''  @ (case func of None \<Rightarrow> ''???'' | Some x \<Rightarrow> x) @ '']'']))"

text \<open>\<open>backtrace_full\<close> calls back for each frame until the callback returns a value other than 0.\<close>

fun Dump :: "(string option \<times> int \<times> string option) list \<Rightarrow> nat \<Rightarrow> string list \<Rightarrow> string list" where
  "Dump [] count stacks = stacks"
| "Dump ((file, line, func) # frames) count stacks =
     (let (ret, count', stacks') = StackDumper_Backtrace file line func count stacks in
      if ret \<noteq> 0 then stacks' else Dump frames count' stacks')"

subsection \<open>Logging\<close>

record log_env =
  ev_now :: tm
  ev_usec :: int
  ev_ids :: trace_ids
  ev_file :: fa_env
  ev_frames :: "(string option \<times> int \<times> string option) list"
  ev_release :: bool

text \<open>Writing through an appender: its text is a format, so the result may be undefined.\<close>

definition appender_write ::
    "fa_env \<Rightarrow> string \<Rightarrow> farg list \<Rightarrow> file_appender option \<Rightarrow> fs \<Rightarrow> (file_appender option \<times> fs) option" where
  "appender_write e fmt args a f =
     (case a of
        None \<Rightarrow> Some (None, f)
      | Some ap \<Rightarrow>
          if fa_stream_open (fst (CutIfNeed e ap f)) then
            (case vformat fmt args of
               None \<Rightarrow> None
             | Some str \<Rightarrow> let (ap', f') = fa_Write e str ap f in Some (Some ap', f'))
          else let (ap', f') = CutIfNeed e ap f in Some (Some ap', f'))"

definition frames_str :: "string list \<Rightarrow> string" where
  "frames_str frames = concat (map (\<lambda>sf. [CHR 0x09, CHR 0x09] @ sf @ [CHR 0x0A]) frames)"

definition Logger_Backtrace :: "log_env \<Rightarrow> logger \<Rightarrow> log_world \<Rightarrow> (logger \<times> log_world) option" where
  "Logger_Backtrace e l w =
     (let output = frames_str (Dump (ev_frames e) 0 []);
          w1 = w\<lparr>lw_console := lw_console w @ output\<rparr>
      in case appender_write (ev_file e) output [] (lg_file_appender l) (lw_fs w1) of
           None \<Rightarrow> None
         | Some (a, f1) \<Rightarrow>
             (case appender_write (ev_file e) output [] (lg_crash_file_appender l) f1 of
                None \<Rightarrow> None
              | Some (a', f2) \<Rightarrow>
                  Some (l\<lparr>lg_file_appender := a, lg_crash_file_appender := a'\<rparr>, w1\<lparr>lw_fs := f2\<rparr>)))"

definition fatal_note :: string where
  "fatal_note = [CHR 0x0A, CHR 0x09] @ ''Exiting due to FATAL log'' @ [CHR 0x0A, CHR 0x09] @ ''Call Stack:''"

definition Log :: "log_env \<Rightarrow> level \<Rightarrow> string \<Rightarrow> farg list \<Rightarrow> logger \<Rightarrow> log_world \<Rightarrow> (logger \<times> log_world) option" where
  "Log e log_level fmt args l w =
     (if log_level < lg_priority l then Some (l, w)
      else
        let new_fmt = GenLogPrefix (ev_now e) (ev_usec e) (ev_ids e) @ kLevel2Description log_level @ fmt @
              (if log_level = FATAL_LEVEL then fatal_note else [])
        in case (if lg_is_console_output l \<or> ERROR_LEVEL \<le> log_level
                 then map_option (\<lambda>out. w\<lparr>lw_console := lw_console w @ out\<rparr>) (vformat (new_fmt @ [CHR 0x0A]) args)
                 else Some w) of
             None \<Rightarrow> None
           | Some w1 \<Rightarrow>
          (case appender_write (ev_file e) new_fmt args (lg_file_appender l) (lw_fs w1) of
             None \<Rightarrow> None
           | Some (a, f1) \<Rightarrow>
          (case (if FATAL_LEVEL \<le> log_level then appender_write (ev_file e) new_fmt args (lg_crash_file_appender l) f1
                 else Some (lg_crash_file_appender l, f1)) of
             None \<Rightarrow> None
           | Some (a', f2) \<Rightarrow>
              let l1 = l\<lparr>lg_file_appender := a, lg_crash_file_appender := a'\<rparr>; w2 = w1\<lparr>lw_fs := f2\<rparr> in
              if log_level \<noteq> FATAL_LEVEL then Some (l1, w2)
              else if ev_release e then
                (if lg_receive_fatal l1 then Some (l1, w2)
                 else map_option (\<lambda>(l2, w3). (l2, w3\<lparr>lw_exited := True\<rparr>))
                        (Logger_Backtrace e (l1\<lparr>lg_receive_fatal := True\<rparr>) w2))
              else Logger_Backtrace e l1 w2)))"

text \<open>The dispositions installed by \<open>HandleSignal\<close> and the handler of the fatal signals.\<close>

datatype signal_action = SIG_DFL | SIG_IGN | SIG_HANDLER

definition HandleSignal :: "string \<Rightarrow> signal_action" where
  "HandleSignal sig =
     (if sig \<in> {''SIGHUP'', ''SIGQUIT'', ''SIGPIPE'', ''SIGTTOU'', ''SIGTTIN'', ''SIGCHLD'', ''SIGTERM''} then SIG_IGN
      else if sig \<in> {''SIGBUS'', ''SIGSEGV'', ''SIGABRT'', ''SIGILL'', ''SIGFPE''} then SIG_HANDLER
      else SIG_DFL)"

definition signal_handler :: "log_env \<Rightarrow> int \<Rightarrow> logger \<Rightarrow> log_world \<Rightarrow> (logger \<times> log_world) option" where
  "signal_handler e sig l w =
     map_option (\<lambda>(l', w'). (l', w'\<lparr>lw_exited := True\<rparr>))
       (Log e FATAL_LEVEL ''Exiting due to receive signal: %d'' [ArgD sig] l
          (w\<lparr>lw_console := lw_console w @ ''receive signal: '' @ int_str sig @ [CHR 0x0A]\<rparr>))"

subsection \<open>Front ends\<close>

text \<open>\<open>LogInfo(fmt, ...)\<close> and its siblings, and the form with a tag.\<close>

definition LOGGER_LOG :: "log_env \<Rightarrow> level \<Rightarrow> string \<Rightarrow> int \<Rightarrow> string \<Rightarrow> string \<Rightarrow> farg list \<Rightarrow>
    logger \<Rightarrow> log_world \<Rightarrow> (logger \<times> log_world) option" where
  "LOGGER_LOG e lvl file line func fmt args =
     Log e lvl (''[%s:%d][%s] '' @ fmt) ([ArgS file, ArgD line, ArgS func] @ args)"

definition LOGGER_LOG_WITH_TAG :: "log_env \<Rightarrow> level \<Rightarrow> string \<Rightarrow> string \<Rightarrow> int \<Rightarrow> string \<Rightarrow> string \<Rightarrow> farg list \<Rightarrow>
    logger \<Rightarrow> log_world \<Rightarrow> (logger \<times> log_world) option" where
  "LOGGER_LOG_WITH_TAG e lvl tag file line func fmt args =
     Log e lvl (''[%s:%d][%s][tag=%s] '' @ fmt) ([ArgS file, ArgD line, ArgS func, ArgS tag] @ args)"

record log_capture =
  lc_sstream :: string
  lc_level :: level
  lc_file :: string
  lc_line :: int
  lc_function :: string
  lc_check_expression :: string

definition LogCapture :: "level \<Rightarrow> string \<Rightarrow> int \<Rightarrow> string \<Rightarrow> string \<Rightarrow> log_capture" where
  "LogCapture lvl file line func check_expression = \<lparr> lc_sstream = [], lc_level = lvl, lc_file = file, lc_line = line,
     lc_function = func, lc_check_expression = check_expression \<rparr>"

text \<open>\<open>stream() << str\<close>\<close>

definition capture_write :: "string \<Rightarrow> log_capture \<Rightarrow> log_capture" where
  "capture_write str c = c\<lparr>lc_sstream := lc_sstream c @ str\<rparr>"

definition LogCapture_end :: "log_env \<Rightarrow> log_capture \<Rightarrow> logger \<Rightarrow> log_world \<Rightarrow> (logger \<times> log_world) option" where
  "LogCapture_end e c =
     (let c1 = (if lc_level c = FATAL_LEVEL \<and> lc_check_expression c \<noteq> []
                then capture_write ([CHR 0x0A, CHR 0x09] @ ''CHECK('' @ lc_check_expression c @ '') fail.'') c else c)
      in Log e (lc_level c1) ''[%s:%d][%s] %s'' [ArgS (lc_file c1), ArgD (lc_line c1), ArgS (lc_function c1), ArgS (lc_sstream c1)])"

record logger_kv =
  kv_sstream :: string
  kv_level :: level
  kv_file :: string
  kv_line :: int
  kv_function :: string

definition LoggerKV :: "level \<Rightarrow> string \<Rightarrow> int \<Rightarrow> string \<Rightarrow> string \<Rightarrow> logger_kv" where
  "LoggerKV lvl file line func prefix = \<lparr> kv_sstream = prefix, kv_level = lvl, kv_file = file, kv_line = line,
     kv_function = func \<rparr>"

definition LogKV :: "string \<Rightarrow> string \<Rightarrow> logger_kv \<Rightarrow> logger_kv" where
  "LogKV key val k = k\<lparr>kv_sstream := kv_sstream k @ ''||'' @ key @ ''='' @ val\<rparr>"

definition LogKVFormat :: "string \<Rightarrow> farg list \<Rightarrow> logger_kv \<Rightarrow> logger_kv option" where
  "LogKVFormat fmt args k =
     map_option (\<lambda>buff. k\<lparr>kv_sstream := kv_sstream k @ ''||'' @ take 199 buff\<rparr>) (vformat fmt args)"

definition LoggerKV_end :: "log_env \<Rightarrow> logger_kv \<Rightarrow> logger \<Rightarrow> log_world \<Rightarrow> (logger \<times> log_world) option" where
  "LoggerKV_end e k =
     Log e (kv_level k) ''[%s:%d][%s] %s'' [ArgS (kv_file k), ArgD (kv_line k), ArgS (kv_function k), ArgS (kv_sstream k)]"

text \<open>The counters of \<open>LOG_..._EVERY(N)\<close> and \<open>LOG_..._FIRST_N(N)\<close>: the new counter and whether to log.\<close>

definition LOG_EVERY_N :: "32 word \<Rightarrow> 32 word \<Rightarrow> bool \<times> 32 word" where
  "LOG_EVERY_N n cnt =
     (let cnt1 = cnt + 1; cnt2 = (if cnt1 > n then cnt1 - n else cnt1) in (cnt2 = 1, cnt2))"

definition LOG_FIRST_N :: "32 word \<Rightarrow> 32 word \<Rightarrow> bool \<times> 32 word" where
  "LOG_FIRST_N n cnt = (let cnt1 = cnt + 1 in (cnt1 \<le> n, cnt1))"

subsection \<open>Formatting a line\<close>

lemma vformat_literal: "CHR 0x25 \<notin> set p \<Longrightarrow> vformat (p @ cs) args = map_option ((@) p) (vformat cs args)"
proof (induction p)
  case Nil
  show ?case by (cases "vformat cs args") simp_all
next
  case (Cons c p)
  then show ?case by (cases "vformat cs args") auto
qed

lemma vformat_S: "vformat (CHR 0x25 # CHR ''s'' # cs) (ArgS x # args) = map_option ((@) x) (vformat cs args)"
  by simp

lemma vformat_D: "vformat (CHR 0x25 # CHR ''d'' # cs) (ArgD i # args) = map_option ((@) (int_str i)) (vformat cs args)"
  by simp

lemma nat_str_no_percent: "CHR 0x25 \<notin> set (nat_str n)"
  using nat_str_digits [of n] by (auto simp: is_digit_def)

lemma int_str_no_percent: "CHR 0x25 \<notin> set (int_str i)"
  by (simp add: int_str_def nat_str_no_percent)

lemma hex_digit_no_percent: "n < 16 \<Longrightarrow> hex_digit n \<noteq> CHR 0x25"
  by (auto simp: hex_digit_def char_of_eq_iff take_bit_eq_mod)

lemma hex_str_no_percent: "CHR 0x25 \<notin> set (hex_str n)"
proof (induction n rule: hex_str.induct)
  case (1 n)
  then show ?case using hex_digit_no_percent [of n] hex_digit_no_percent [of "n mod 16"]
    by (subst hex_str.simps) auto
qed

lemma pad_no_percent: "CHR 0x25 \<notin> set (pad w i)"
  by (auto simp: pad_def int_str_no_percent)

lemma GenLogPrefix_no_percent: "CHR 0x25 \<notin> set (GenLogPrefix now usec t)"
  using set_take_subset by (fastforce simp: GenLogPrefix_def pad_no_percent int_str_no_percent hex_str_no_percent)

lemma description_no_percent: "CHR 0x25 \<notin> set (kLevel2Description lvl)"
  by (cases lvl) simp_all

text \<open>The line every front end produces.\<close>

definition line_str :: "log_env \<Rightarrow> level \<Rightarrow> string \<Rightarrow> int \<Rightarrow> string \<Rightarrow> string \<Rightarrow> string" where
  "line_str e lvl file line func msg = GenLogPrefix (ev_now e) (ev_usec e) (ev_ids e) @ kLevel2Description lvl @
     ''['' @ file @ '':'' @ int_str line @ ''][''  @ func @ ''] '' @ msg"

lemma vformat_line:
  assumes "CHR 0x25 \<notin> set rest"
  shows "vformat (GenLogPrefix (ev_now e) (ev_usec e) (ev_ids e) @ kLevel2Description lvl @ ''[%s:%d][%s] %s'' @ rest)
    [ArgS file, ArgD line, ArgS func, ArgS msg] = Some (line_str e lvl file line func msg @ rest)"
proof -
  have "vformat rest [] = Some rest" using vformat_literal [OF assms, of "[]"] by simp
  then have "vformat (''[%s:%d][%s] %s'' @ rest) [ArgS file, ArgD line, ArgS func, ArgS msg] =
      Some (''['' @ file @ '':'' @ int_str line @ ''][''  @ func @ ''] '' @ msg @ rest)" by simp
  then show ?thesis
    by (simp only: vformat_literal GenLogPrefix_no_percent description_no_percent simp_thms option.map line_str_def append_assoc)
qed

lemma fa_Write_fst: "fst (fa_Write e str a f) = fst (CutIfNeed e a f)"
  by (simp add: fa_Write_def case_prod_beta Let_def)

subsection \<open>Counters\<close>

fun counted :: "(32 word \<Rightarrow> bool \<times> 32 word) \<Rightarrow> nat \<Rightarrow> 32 word \<Rightarrow> bool list" where
  "counted f 0 cnt = []"
| "counted f (Suc k) cnt = (let (b, cnt') = f cnt in b # counted f k cnt')"

lemma EVERY_N_step:
  assumes "0 < n" "n < 2 ^ 32 - 1" "c \<le> n"
  shows "LOG_EVERY_N (word_of_nat n) (word_of_nat c) =
    (c mod n = 0, word_of_nat (if c = n then 1 else Suc c))"
proof -
  have lt: "c < 2 ^ 32" "n < 2 ^ 32" "Suc c < 2 ^ 32" using assms by linarith+
  have c1: "word_of_nat c + 1 = (word_of_nat (Suc c) :: 32 word)" by (simp add: add.commute)
  have gt: "((word_of_nat n :: 32 word) < word_of_nat (Suc c)) = (n < Suc c)"
    using lt by (simp add: word_less_nat_alt unsigned_of_nat take_bit_nat_eq_self del: of_nat_Suc)
  have one: "((word_of_nat k :: 32 word) = 1) = (k = 1)" if "k < 2 ^ 32" for k
    using that by (simp add: word_of_nat_eq_iff [where n = 1, simplified] take_bit_nat_eq_self)
  show ?thesis
  proof (cases "c = n")
    case True
    then have "(word_of_nat (Suc c) :: 32 word) - word_of_nat n = 1" by simp
    with True gt c1 show ?thesis by (simp add: LOG_EVERY_N_def Let_def add.commute)
  next
    case False
    then have "c mod n = c" using assms by simp
    moreover have "((word_of_nat (Suc c) :: 32 word) = 1) = (c = 0)" using one [OF lt(3)] by simp
    ultimately show ?thesis
      using False assms(3) unfolding LOG_EVERY_N_def Let_def c1 gt by (simp del: of_nat_Suc)
  qed
qed

lemma EVERY_N_counted:
  assumes "0 < n" "n < 2 ^ 32 - 1" "c \<le> n"
  shows "counted (LOG_EVERY_N (word_of_nat n)) k (word_of_nat c) = map (\<lambda>i. (c + i) mod n = 0) [0..<k]"
  using assms(3)
proof (induction k arbitrary: c)
  case (Suc k)
  let ?c = "if c = n then 1 else Suc c"
  have "?c \<le> n" using Suc.prems assms(1) by auto
  moreover have "(?c + i) mod n = (c + Suc i) mod n" for i
    using mod_add_self1 [of n "Suc i"] by auto
  ultimately have "counted (LOG_EVERY_N (word_of_nat n)) k (word_of_nat ?c) = map (\<lambda>i. (c + Suc i) mod n = 0) [0..<k]"
    using Suc.IH [of ?c] by simp
  then show ?case
    using EVERY_N_step [OF assms(1,2) Suc.prems]
    by (simp add: map_upt_Suc del: upt_Suc)
qed simp

lemma FIRST_N_counted:
  assumes "c + k < 2 ^ 32" "n < 2 ^ 32"
  shows "counted (LOG_FIRST_N (word_of_nat n)) k (word_of_nat c) = map (\<lambda>i. c + i < n) [0..<k]"
  using assms(1)
proof (induction k arbitrary: c)
  case (Suc k)
  have c1: "word_of_nat c + 1 = (word_of_nat (Suc c) :: 32 word)" by (simp add: add.commute)
  have "((word_of_nat (Suc c) :: 32 word) \<le> word_of_nat n) = (Suc c \<le> n)"
    using Suc.prems assms(2)
    by (simp add: word_le_nat_alt unsigned_of_nat take_bit_nat_eq_self del: of_nat_Suc)
  then have "LOG_FIRST_N (word_of_nat n) (word_of_nat c) = (c < n, word_of_nat (Suc c))"
    by (simp add: LOG_FIRST_N_def c1 Let_def Suc_le_eq)
  then show ?case using Suc.IH [of "Suc c"] Suc.prems
    by (simp add: map_upt_Suc del: upt_Suc of_nat_Suc)
qed simp

text \<open>A backtrace is written as a format: a frame with a per cent sign makes the write undefined.\<close>

lemma vformat_bad: "CHR 0x25 \<notin> set p \<Longrightarrow> c \<noteq> CHR 0x25 \<Longrightarrow> vformat (p @ CHR 0x25 # c # cs) [] = None"
  by (simp add: vformat_literal)

subsection \<open>Properties\<close>



text \<open>
  (C31) Rate limits: of the calls of a statement \<open>LOG_..._EVERY(n)\<close> exactly the first, the \<open>n+1\<close>st, the
  \<open>2n+1\<close>st and so on print; of those of \<open>LOG_..._FIRST_N(n)\<close> exactly the first \<open>n\<close>, until the 32-bit
  counter wraps around.
\<close>

theorem log_every_n_period:
  assumes "0 < n" "n < 2 ^ 32 - 1"
  shows "counted (LOG_EVERY_N (word_of_nat n)) k 0 = map (\<lambda>i. i mod n = 0) [0..<k] \<and>
    (k < 2 ^ 32 \<longrightarrow> counted (LOG_FIRST_N (word_of_nat n)) k 0 = map (\<lambda>i. i < n) [0..<k])"
  using EVERY_N_counted [OF assms, of 0 k] FIRST_N_counted [of 0 k n] assms by simp

theorem log_every_n_period_witness:
  "counted (LOG_EVERY_N 3) 7 0 = [True, False, False, True, False, False, True] \<and>
   counted (LOG_FIRST_N 3) 5 0 = [True, True, True, False, False]"
  using log_every_n_period [of 3 7] log_every_n_period [of 3 5] by (simp add: upt_rec)

lemma Logger_Backtrace_exited:
  "Logger_Backtrace e l w = Some (l', w') \<Longrightarrow> lw_exited w' = lw_exited w \<and> lg_receive_fatal l' = lg_receive_fatal l"
  by (auto simp: Logger_Backtrace_def Let_def split: option.splits)

text \<open>
  (C32) A FATAL log in a release build ends the process, once: the first one sets the flag, writes the
  stack and exits, one that arrives while the first is handled is only logged.  In a debug build
  no FATAL log exits, so the program goes on after a failed CHECK.
\<close>

theorem log_fatal_exit:
  assumes "Log e FATAL_LEVEL fmt args l w = Some (l', w')" "\<not> lw_exited w"
  shows "lw_exited w' = (ev_release e \<and> \<not> lg_receive_fatal l) \<and>
    lg_receive_fatal l' = (lg_receive_fatal l \<or> ev_release e)"
proof -
  have "\<not> FATAL_LEVEL < lg_priority l" by (cases "lg_priority l") (simp_all add: less_level_def)
  with assms show ?thesis
    by (auto simp: Log_def Let_def split: option.splits if_splits dest!: Logger_Backtrace_exited)
qed

theorem log_fatal_exit_witness:
  "\<exists>l' w'. Log \<lparr> ev_now = \<lparr> tm_sec = 7, tm_min = 47, tm_hour = 14, tm_mday = 14, tm_mon = 4, tm_year = 123 \<rparr>, ev_usec = 0,
        ev_ids = \<lparr> t_pid = 18442, t_traceid = 0 \<rparr>,
        ev_file = \<lparr> fe_now = \<lparr> tm_sec = 7, tm_min = 47, tm_hour = 14, tm_mday = 14, tm_mon = 4, tm_year = 123 \<rparr>,
          fe_rename_ok = True, fe_open_ok = True \<rparr>, ev_frames = [], ev_release = True \<rparr>
      FATAL_LEVEL ''bad'' [] Logger \<lparr> lw_fs = (\<lambda>_. None), lw_console = [], lw_exited = False \<rparr> = Some (l', w') \<and>
    lw_exited w' \<and> lg_receive_fatal l'"
proof -
  let ?t = "\<lparr> tm_sec = 7, tm_min = 47, tm_hour = 14, tm_mday = 14, tm_mon = 4, tm_year = 123 \<rparr>"
  let ?e = "\<lparr> ev_now = ?t, ev_usec = 0, ev_ids = \<lparr> t_pid = 18442, t_traceid = 0 \<rparr>,
    ev_file = \<lparr> fe_now = ?t, fe_rename_ok = True, fe_open_ok = True \<rparr>, ev_frames = [], ev_release = True \<rparr>"
  let ?w = "\<lparr> lw_fs = (\<lambda>_. None), lw_console = [], lw_exited = False \<rparr>"
  have "CHR 0x25 \<notin> set (''bad'' @ fatal_note @ [CHR 0x0A])" by (simp add: fatal_note_def)
  then have "vformat (''bad'' @ fatal_note @ [CHR 0x0A]) [] = Some (''bad'' @ fatal_note @ [CHR 0x0A])"
    using vformat_literal [of "''bad'' @ fatal_note @ [CHR 0x0A]" "[]" "[]"] by simp
  then have "vformat ((GenLogPrefix (ev_now ?e) (ev_usec ?e) (ev_ids ?e) @ kLevel2Description FATAL_LEVEL @ ''bad'' @ fatal_note)
      @ [CHR 0x0A]) [] \<noteq> None"
    by (simp only: append_assoc vformat_literal GenLogPrefix_no_percent description_no_percent simp_thms option.map) simp
  then obtain x where x: "vformat ((GenLogPrefix (ev_now ?e) (ev_usec ?e) (ev_ids ?e) @ kLevel2Description FATAL_LEVEL @ ''bad'' @
      fatal_note) @ [CHR 0x0A]) [] = Some x" by blast
  have "\<exists>l' w'. Log ?e FATAL_LEVEL ''bad'' [] Logger ?w = Some (l', w')"
    using x by (simp add: Log_def Logger_def Logger_Backtrace_def appender_write_def less_level_def less_eq_level_def Let_def)
  then obtain l' w' where "Log ?e FATAL_LEVEL ''bad'' [] Logger ?w = Some (l', w')" by blast
  with log_fatal_exit [OF this] show ?thesis by (simp add: Logger_def)
qed

end
