(* ===== verification/Redis_Proxy.thy ===== *)
theory Redis_Proxy
  imports Cxx_Text
begin

text \<open>
  The Redis client of \<^verbatim>\<open>src/redis_proxy/redis_proxy.h\<close> and \<^verbatim>\<open>redis_proxy.cpp\<close>.  The library hiredis is a
  record of functions on contexts of type \<open>'x\<close> and a world of type \<open>'w\<close> (the server and the
  connection); nothing is assumed of it here.  Arguments and replies that the code passes as C
  strings end at their first NUL.
\<close>

definition c_str :: "string \<Rightarrow> string" where
  "c_str str = takeWhile (\<lambda>c. c \<noteq> CHR 0x00) str"

subsection \<open>The interface of hiredis\<close>

datatype redis_reply = RedisReply (rr_type: int) (rr_str: "string option") (rr_integer: int) (rr_elements: "redis_reply list")

definition REDIS_REPLY_STRING :: int where "REDIS_REPLY_STRING = 1"
definition REDIS_REPLY_ARRAY :: int where "REDIS_REPLY_ARRAY = 2"
definition REDIS_REPLY_INTEGER :: int where "REDIS_REPLY_INTEGER = 3"
definition REDIS_REPLY_NIL :: int where "REDIS_REPLY_NIL = 4"
definition REDIS_REPLY_STATUS :: int where "REDIS_REPLY_STATUS = 5"
definition REDIS_REPLY_ERROR :: int where "REDIS_REPLY_ERROR = 6"

lemmas reply_types = REDIS_REPLY_STRING_def REDIS_REPLY_ARRAY_def REDIS_REPLY_INTEGER_def REDIS_REPLY_NIL_def
  REDIS_REPLY_STATUS_def REDIS_REPLY_ERROR_def

text \<open>A connection attempt yields no context, a context with its error set, or a good one.\<close>

datatype 'x conn_result = ConnNull | ConnErr 'x | ConnOk 'x

record ('x, 'w) hiredis =
  redisConnectWithTimeout :: "string \<Rightarrow> int \<Rightarrow> int \<times> int \<Rightarrow> 'w \<Rightarrow> 'x conn_result \<times> 'w"
  redisSetTimeout :: "'x \<Rightarrow> int \<times> int \<Rightarrow> 'w \<Rightarrow> int \<times> 'w"
  redisCommandArgv :: "'x \<Rightarrow> string list \<Rightarrow> 'w \<Rightarrow> redis_reply option \<times> 'w"
  redisvCommand :: "'x \<Rightarrow> string \<Rightarrow> string list \<Rightarrow> 'w \<Rightarrow> redis_reply option \<times> 'w"
  redisAppendCommandArgv :: "'x \<Rightarrow> string list \<Rightarrow> 'w \<Rightarrow> int \<times> 'w"
  redisGetReply :: "'x \<Rightarrow> 'w \<Rightarrow> int \<times> redis_reply option \<times> 'w"
  redisFree :: "'x \<Rightarrow> 'w \<Rightarrow> 'w"

subsection \<open>Commands\<close>

type_synonym redis_command = "string list"

definition RedisCommand :: redis_command where
  "RedisCommand = []"

definition append_str :: "string \<Rightarrow> redis_command \<Rightarrow> redis_command" where
  "append_str val argv = argv @ [c_str val]"

definition append_nat :: "nat \<Rightarrow> redis_command \<Rightarrow> redis_command" where
  "append_nat val argv = append_str (nat_str val) argv"

fun get_cmd_str :: "redis_command \<Rightarrow> string" where
  "get_cmd_str [] = []"
| "get_cmd_str [a] = ''['' @ a @ '']''"
| "get_cmd_str (a # b # argv) = ''['' @ a @ '']'' @ '' '' @ get_cmd_str (b # argv)"

subsection \<open>Responses\<close>

datatype return_code = REPLY_UNKNOWN | REPLY_ERROR | CONNECTION_REFUSED | REPLY_STRING | REPLY_ARRAY | REPLY_INTEGER
  | REPLY_NIL | REPLY_STATUS

fun return_code_int :: "return_code \<Rightarrow> int" where
  "return_code_int REPLY_UNKNOWN = - 3"
| "return_code_int REPLY_ERROR = - 2"
| "return_code_int CONNECTION_REFUSED = - 1"
| "return_code_int REPLY_STRING = 1"
| "return_code_int REPLY_ARRAY = 2"
| "return_code_int REPLY_INTEGER = 3"
| "return_code_int REPLY_NIL = 4"
| "return_code_int REPLY_STATUS = 5"

record response =
  ret_code :: return_code
  resp_str :: string
  resp_integer :: int
  resp_array :: "string list"

definition Response :: "return_code \<Rightarrow> response" where
  "Response rc = \<lparr> ret_code = rc, resp_str = [], resp_integer = 0, resp_array = [] \<rparr>"

fun join_space :: "string list \<Rightarrow> string" where
  "join_space [] = []"
| "join_space [a] = a"
| "join_space (a # b # as) = a @ '' '' @ join_space (b # as)"

definition reply_text :: "redis_reply \<Rightarrow> string" where
  "reply_text r = (case rr_str r of None \<Rightarrow> [] | Some str \<Rightarrow> str)"

definition response_line :: "int \<Rightarrow> string \<Rightarrow> int \<Rightarrow> string \<Rightarrow> string" where
  "response_line code str integer arr = take 199 (''ret_code='' @ int_str code @ ''||str='' @ c_str str @ ''||integer='' @
     int_str integer @ ''||array='' @ c_str arr)"

definition PrintRedisReply :: "redis_reply option \<Rightarrow> string" where
  "PrintRedisReply reply =
     (case reply of
        None \<Rightarrow> []
      | Some r \<Rightarrow> response_line (rr_type r) (reply_text r) (rr_integer r) (join_space (map reply_text (rr_elements r))))"

definition PrintRedisResponse :: "response option \<Rightarrow> string" where
  "PrintRedisResponse resp =
     (case resp of
        None \<Rightarrow> []
      | Some r \<Rightarrow> response_line (return_code_int (ret_code r)) (resp_str r) (resp_integer r) (join_space (resp_array r)))"

subsection \<open>The proxy\<close>

record 'x redis_proxy =
  rp_ip :: string
  rp_port :: int
  rp_conn_timeout_ms :: int
  rp_rw_timeout_ms :: int
  rp_ctx :: "'x option"

definition RedisProxy :: "string \<Rightarrow> int \<Rightarrow> int \<Rightarrow> int \<Rightarrow> 'x redis_proxy" where
  "RedisProxy ip port conn_timeout_ms rw_timeout_ms = \<lparr> rp_ip = ip, rp_port = port, rp_conn_timeout_ms = conn_timeout_ms,
     rp_rw_timeout_ms = rw_timeout_ms, rp_ctx = None \<rparr>"

definition redis_close :: "('x, 'w) hiredis \<Rightarrow> 'x redis_proxy \<Rightarrow> 'w \<Rightarrow> 'x redis_proxy \<times> 'w" where
  "redis_close api p w = (case rp_ctx p of None \<Rightarrow> (p, w) | Some x \<Rightarrow> (p\<lparr>rp_ctx := None\<rparr>, redisFree api x w))"

text \<open>C division and remainder, which truncate.\<close>

definition timeval_of :: "int \<Rightarrow> int \<times> int" where
  "timeval_of ms = (if 0 \<le> ms then (ms div 1000, ms mod 1000 * 1000) else (- ((- ms) div 1000), - ((- ms) mod 1000) * 1000))"

definition redis_connect :: "('x, 'w) hiredis \<Rightarrow> 'x redis_proxy \<Rightarrow> 'w \<Rightarrow> bool \<times> 'x redis_proxy \<times> 'w" where
  "redis_connect api p w =
     (if rp_ctx p \<noteq> None then (True, p, w)
      else
        let (res, w1) = redisConnectWithTimeout api (rp_ip p) (rp_port p) (timeval_of (rp_conn_timeout_ms p)) w in
        case res of
          ConnNull \<Rightarrow> (False, p, w1)
        | ConnErr x \<Rightarrow> (False, redis_close api (p\<lparr>rp_ctx := Some x\<rparr>) w1)
        | ConnOk x \<Rightarrow>
            let p1 = p\<lparr>rp_ctx := Some x\<rparr>;
                (ret, w2) = redisSetTimeout api x (timeval_of (rp_rw_timeout_ms p)) w1
            in if ret \<noteq> 0 then (False, redis_close api p1 w2) else (True, p1, w2))"

text \<open>\<open>parse_redis_reply\<close>; a missing string where the code copies one is undefined (\<^const>\<open>None\<close>).\<close>

definition parse_redis_reply ::
    "('x, 'w) hiredis \<Rightarrow> redis_reply option \<Rightarrow> 'x redis_proxy \<Rightarrow> 'w \<Rightarrow> (response \<times> 'x redis_proxy \<times> 'w) option" where
  "parse_redis_reply api reply p w =
     (case reply of
        None \<Rightarrow> Some (Response CONNECTION_REFUSED, redis_close api p w)
      | Some r \<Rightarrow>
          let copied = (\<lambda>rc. map_option (\<lambda>str. ((Response rc)\<lparr>resp_str := c_str str\<rparr>, p, w)) (rr_str r)) in
          if rr_type r = REDIS_REPLY_STRING then copied REPLY_STRING
          else if rr_type r = REDIS_REPLY_ARRAY
          then Some ((Response REPLY_ARRAY)\<lparr>resp_array := map reply_text (rr_elements r)\<rparr>, p, w)
          else if rr_type r = REDIS_REPLY_INTEGER
          then Some ((Response REPLY_INTEGER)\<lparr>resp_integer := rr_integer r\<rparr>, p, w)
          else if rr_type r = REDIS_REPLY_NIL then Some (Response REPLY_NIL, p, w)
          else if rr_type r = REDIS_REPLY_STATUS then copied REPLY_STATUS
          else if rr_type r = REDIS_REPLY_ERROR then copied REPLY_ERROR
          else Some ((Response REPLY_UNKNOWN)\<lparr>resp_str := (case rr_str r of None \<Rightarrow> ''nullptr'' | Some str \<Rightarrow> c_str str)\<rparr>, p, w))"

definition execute ::
    "('x, 'w) hiredis \<Rightarrow> redis_command \<Rightarrow> 'x redis_proxy \<Rightarrow> 'w \<Rightarrow> (response \<times> 'x redis_proxy \<times> 'w) option" where
  "execute api cmd p w =
     (let (ok, p1, w1) = redis_connect api p w in
      case rp_ctx p1 of
        Some x \<Rightarrow>
          if \<not> ok then Some (Response CONNECTION_REFUSED, p1, w1)
          else let (reply, w2) = redisCommandArgv api x cmd w1 in parse_redis_reply api reply p1 w2
      | None \<Rightarrow> Some (Response CONNECTION_REFUSED, p1, w1))"

definition ExecuteArgv ::
    "('x, 'w) hiredis \<Rightarrow> string list \<Rightarrow> 'x redis_proxy \<Rightarrow> 'w \<Rightarrow> (response \<times> 'x redis_proxy \<times> 'w) option" where
  "ExecuteArgv api args p w = execute api (fold append_str args RedisCommand) p w"

definition Execute ::
    "('x, 'w) hiredis \<Rightarrow> string \<Rightarrow> string list \<Rightarrow> 'x redis_proxy \<Rightarrow> 'w \<Rightarrow> (response \<times> 'x redis_proxy \<times> 'w) option" where
  "Execute api fmt args p w =
     (let (ok, p1, w1) = redis_connect api p w in
      case rp_ctx p1 of
        Some x \<Rightarrow>
          if \<not> ok then Some (Response CONNECTION_REFUSED, p1, w1)
          else let (reply, w2) = redisvCommand api x fmt args w1 in parse_redis_reply api reply p1 w2
      | None \<Rightarrow> Some (Response CONNECTION_REFUSED, p1, w1))"

subsection \<open>Pipelines\<close>

fun append_loop :: "('x, 'w) hiredis \<Rightarrow> 'x \<Rightarrow> redis_command list \<Rightarrow> 'w \<Rightarrow> bool \<times> 'w" where
  "append_loop api x [] w = (True, w)"
| "append_loop api x (cmd # cmds) w =
     (let (ret, w1) = redisAppendCommandArgv api x cmd w in
      if ret \<noteq> 0 then (False, w1) else append_loop api x cmds w1)"

text \<open>
  The loop that reads the replies.  The proxy keeps its context while replies are not null, so
  \<open>parse_redis_reply\<close> leaves it alone.
\<close>

fun reply_loop :: "('x, 'w) hiredis \<Rightarrow> nat \<Rightarrow> 'x redis_proxy \<Rightarrow> 'x \<Rightarrow> 'w \<Rightarrow> response list \<Rightarrow>
    (bool \<times> response list \<times> 'x redis_proxy \<times> 'w) option" where
  "reply_loop api 0 p x w resps = Some (True, resps, p, w)"
| "reply_loop api (Suc n) p x w resps =
     (let (ret, reply, w1) = redisGetReply api x w in
      if reply = None \<or> ret \<noteq> 0 then Some (False, resps, redis_close api p w1)
      else case parse_redis_reply api reply p w1 of
             None \<Rightarrow> None
           | Some (resp, p1, w2) \<Rightarrow> reply_loop api n p1 x w2 (resps @ [resp]))"

definition PipeExecute :: "('x, 'w) hiredis \<Rightarrow> redis_command list \<Rightarrow> response list \<Rightarrow> 'x redis_proxy \<Rightarrow> 'w \<Rightarrow>
    (bool \<times> response list \<times> 'x redis_proxy \<times> 'w) option" where
  "PipeExecute api cmds resps p w =
     (let (ok, p1, w1) = redis_connect api p w in
      case rp_ctx p1 of
        None \<Rightarrow> Some (False, resps, p1, w1)
      | Some x \<Rightarrow>
          if \<not> ok then Some (False, resps, p1, w1)
          else
            let (appended, w2) = append_loop api x cmds w1 in
            if \<not> appended then Some (False, resps, redis_close api p1 w2)
            else reply_loop api (length cmds) p1 x w2 resps)"

subsection \<open>Set and get\<close>

definition redis_Set :: "('x, 'w) hiredis \<Rightarrow> string \<Rightarrow> string \<Rightarrow> nat \<Rightarrow> 'x redis_proxy \<Rightarrow> 'w \<Rightarrow>
    (bool \<times> 'x redis_proxy \<times> 'w) option" where
  "redis_Set api key val expire_time_sec p w =
     (case (if expire_time_sec > 0
            then execute api (append_nat expire_time_sec (fold append_str [''set'', key, val, ''ex''] RedisCommand)) p w
            else ExecuteArgv api [''set'', key, val] p w) of
        None \<Rightarrow> None
      | Some (resp, p1, w1) \<Rightarrow> Some (ret_code resp = REPLY_STATUS \<and> resp_str resp = ''OK'', p1, w1))"

definition redis_Get :: "('x, 'w) hiredis \<Rightarrow> string \<Rightarrow> string \<Rightarrow> 'x redis_proxy \<Rightarrow> 'w \<Rightarrow>
    (bool \<times> string \<times> 'x redis_proxy \<times> 'w) option" where
  "redis_Get api key val p w =
     (case ExecuteArgv api [''get'', key] p w of
        None \<Rightarrow> None
      | Some (resp, p1, w1) \<Rightarrow>
          if ret_code resp = REPLY_STRING then Some (True, resp_str resp, p1, w1) else Some (False, val, p1, w1))"

definition set_command :: "string \<times> string \<times> nat \<Rightarrow> redis_command" where
  "set_command e =
     (case e of (key, val, expire) \<Rightarrow>
        let cmd = append_str val (append_str key (append_str ''set'' RedisCommand)) in
        if expire > 0 then append_nat expire (append_str ''ex'' cmd) else cmd)"

definition PipeSet :: "('x, 'w) hiredis \<Rightarrow> string list \<Rightarrow> string list \<Rightarrow> nat list \<Rightarrow> 'x redis_proxy \<Rightarrow> 'w \<Rightarrow>
    (bool \<times> 'x redis_proxy \<times> 'w) option" where
  "PipeSet api keys vals expires p w =
     (if length keys \<noteq> length vals \<or> length vals \<noteq> length expires then Some (False, p, w)
      else case PipeExecute api (map set_command (zip keys (zip vals expires))) [] p w of
             None \<Rightarrow> None
           | Some (ok, resps, p1, w1) \<Rightarrow>
               Some (ok \<and> list_all (\<lambda>r. ret_code r = REPLY_STATUS \<and> resp_str r = ''OK'') resps, p1, w1))"

definition PipeGet :: "('x, 'w) hiredis \<Rightarrow> string list \<Rightarrow> (bool \<times> string) list \<Rightarrow> 'x redis_proxy \<Rightarrow> 'w \<Rightarrow>
    (bool \<times> (bool \<times> string) list \<times> 'x redis_proxy \<times> 'w) option" where
  "PipeGet api keys vals p w =
     (case PipeExecute api (map (\<lambda>key. append_str key (append_str ''get'' RedisCommand)) keys) [] p w of
        None \<Rightarrow> None
      | Some (ok, resps, p1, w1) \<Rightarrow>
          if \<not> ok then Some (False, vals, p1, w1)
          else Some (True, vals @ map (\<lambda>r. if ret_code r = REPLY_STRING then (True, resp_str r) else (False, [])) resps, p1, w1))"

subsection \<open>Connection state\<close>

lemma redis_close_ctx: "redis_close api p w = (p1, w1) \<Longrightarrow> rp_ctx p1 = None"
  by (auto simp: redis_close_def split: option.splits)

lemma redis_connect_ctx: "redis_connect api p w = (ok, p1, w1) \<Longrightarrow> ok \<longleftrightarrow> rp_ctx p1 \<noteq> None"
  by (auto simp: redis_connect_def Let_def split: if_splits prod.splits conn_result.splits dest: redis_close_ctx)

lemma parse_redis_reply_ctx:
  assumes "parse_redis_reply api reply p w = Some (resp, p1, w1)" "rp_ctx p \<noteq> None"
  shows "(ret_code resp = CONNECTION_REFUSED \<longleftrightarrow> reply = None) \<and> (rp_ctx p1 = None \<longleftrightarrow> reply = None)"
  using assms
  by (auto simp: parse_redis_reply_def Response_def Let_def split: option.splits if_splits dest: redis_close_ctx)

lemma reply_loop_ctx:
  "reply_loop api n p x w resps = Some (ok, resps1, p1, w1) \<Longrightarrow> rp_ctx p \<noteq> None \<Longrightarrow> ok \<longleftrightarrow> rp_ctx p1 \<noteq> None"
proof (induction n arbitrary: p w resps)
  case (Suc n)
  obtain ret reply w2 where g: "redisGetReply api x w = (ret, reply, w2)" by (metis prod_cases3)
  show ?case
  proof (cases "reply = None \<or> ret \<noteq> 0")
    case True
    then have "ok = False" "redis_close api p w2 = (p1, w1)" using Suc.prems(1) g by simp_all
    then show ?thesis using redis_close_ctx [of api p w2 p1 w1] by simp
  next
    case False
    then have "reply \<noteq> None" "ret = 0" by simp_all
    then have step: "(case parse_redis_reply api reply p w2 of None \<Rightarrow> None
        | Some (resp, p2, w3) \<Rightarrow> reply_loop api n p2 x w3 (resps @ [resp])) = Some (ok, resps1, p1, w1)"
      using Suc.prems(1) g by (simp del: not_None_eq)
    then obtain q where q: "parse_redis_reply api reply p w2 = Some q"
      by (cases "parse_redis_reply api reply p w2") simp_all
    obtain resp p2 w3 where "q = (resp, p2, w3)" by (metis prod_cases3)
    with q have pr: "parse_redis_reply api reply p w2 = Some (resp, p2, w3)" by simp
    have "rp_ctx p2 \<noteq> None" using parse_redis_reply_ctx [OF pr Suc.prems(2)] \<open>reply \<noteq> None\<close> by simp
    moreover have "reply_loop api n p2 x w3 (resps @ [resp]) = Some (ok, resps1, p1, w1)" using step pr by simp
    ultimately show ?thesis by - (rule Suc.IH)
  qed
qed simp

subsection \<open>A server\<close>

text \<open>
  What the documentation of Redis and hiredis says of the commands used here.  \<open>kv\<close> is the store of
  the server, \<open>pend\<close> the replies to pipelined commands not yet read.  A command takes effect in the order
  of sending, and the replies are read in that order; a new connection has none outstanding.
\<close>

fun server_reply :: "(string \<Rightarrow> string option) \<Rightarrow> redis_command \<Rightarrow> redis_reply" where
  "server_reply st [] = RedisReply REDIS_REPLY_ERROR (Some ''ERR'') 0 []"
| "server_reply st (c # args) =
     (if c = ''get'' \<and> length args = 1
      then (case st (hd args) of None \<Rightarrow> RedisReply REDIS_REPLY_NIL None 0 []
            | Some v \<Rightarrow> RedisReply REDIS_REPLY_STRING (Some v) 0 [])
      else if c = ''set'' \<and> 2 \<le> length args then RedisReply REDIS_REPLY_STATUS (Some ''OK'') 0 []
      else RedisReply REDIS_REPLY_ERROR (Some ''ERR'') 0 [])"

fun server_effect :: "redis_command \<Rightarrow> (string \<Rightarrow> string option) \<Rightarrow> string \<Rightarrow> string option" where
  "server_effect (c # k # v # args) st = (if c = ''set'' then st(k \<mapsto> v) else st)"
| "server_effect _ st = st"

definition redis_laws :: "('x, 'w) hiredis \<Rightarrow> ('w \<Rightarrow> string \<Rightarrow> string option) \<Rightarrow> ('w \<Rightarrow> redis_reply list) \<Rightarrow> bool" where
  "redis_laws api kv pend \<longleftrightarrow>
     (\<forall>ip port tv w. \<exists>x w'. redisConnectWithTimeout api ip port tv w = (ConnOk x, w') \<and> kv w' = kv w \<and> pend w' = []) \<and>
     (\<forall>x tv w. \<exists>w'. redisSetTimeout api x tv w = (0, w') \<and> kv w' = kv w \<and> pend w' = pend w) \<and>
     (\<forall>x cmd w. pend w = [] \<longrightarrow> (\<exists>w'. redisCommandArgv api x cmd w = (Some (server_reply (kv w) cmd), w') \<and>
        kv w' = server_effect cmd (kv w) \<and> pend w' = [])) \<and>
     (\<forall>x cmd w. \<exists>w'. redisAppendCommandArgv api x cmd w = (0, w') \<and> kv w' = server_effect cmd (kv w) \<and>
        pend w' = pend w @ [server_reply (kv w) cmd]) \<and>
     (\<forall>x w r rs. pend w = r # rs \<longrightarrow> (\<exists>w'. redisGetReply api x w = (0, Some r, w') \<and> kv w' = kv w \<and> pend w' = rs))"

lemma redis_lawsD:
  assumes "redis_laws api kv pend"
  shows "\<exists>x w'. redisConnectWithTimeout api ip port tv w = (ConnOk x, w') \<and> kv w' = kv w \<and> pend w' = []"
    "\<exists>w'. redisSetTimeout api x tv w = (0, w') \<and> kv w' = kv w \<and> pend w' = pend w"
    "pend w = [] \<Longrightarrow> \<exists>w'. redisCommandArgv api x cmd w = (Some (server_reply (kv w) cmd), w') \<and>
        kv w' = server_effect cmd (kv w) \<and> pend w' = []"
    "\<exists>w'. redisAppendCommandArgv api x cmd w = (0, w') \<and> kv w' = server_effect cmd (kv w) \<and>
        pend w' = pend w @ [server_reply (kv w) cmd]"
    "pend w = r # rs \<Longrightarrow> \<exists>w'. redisGetReply api x w = (0, Some r, w') \<and> kv w' = kv w \<and> pend w' = rs"
  using assms unfolding redis_laws_def by blast+

definition ready :: "('w \<Rightarrow> redis_reply list) \<Rightarrow> 'x redis_proxy \<Rightarrow> 'w \<Rightarrow> bool" where
  "ready pend p w \<longleftrightarrow> rp_ctx p = None \<or> pend w = []"

definition server_response :: "(string \<Rightarrow> string option) \<Rightarrow> redis_command \<Rightarrow> response" where
  "server_response st cmd =
     (let r = server_reply st cmd in
      if rr_type r = REDIS_REPLY_NIL then Response REPLY_NIL
      else (Response (if rr_type r = REDIS_REPLY_STRING then REPLY_STRING
                      else if rr_type r = REDIS_REPLY_STATUS then REPLY_STATUS else REPLY_ERROR))
             \<lparr>resp_str := c_str (reply_text r)\<rparr>)"

lemma parse_server_reply:
  "parse_redis_reply api (Some (server_reply st cmd)) p w = Some (server_response st cmd, p, w)"
  by (cases cmd) (simp_all add: parse_redis_reply_def server_response_def reply_text_def reply_types Let_def split: option.split)

fun server_replies :: "(string \<Rightarrow> string option) \<Rightarrow> redis_command list \<Rightarrow> redis_reply list" where
  "server_replies st [] = []"
| "server_replies st (cmd # cmds) = server_reply st cmd # server_replies (server_effect cmd st) cmds"

fun server_responses :: "(string \<Rightarrow> string option) \<Rightarrow> redis_command list \<Rightarrow> response list" where
  "server_responses st [] = []"
| "server_responses st (cmd # cmds) = server_response st cmd # server_responses (server_effect cmd st) cmds"

lemma connect_ready:
  assumes "redis_laws api kv pend" "ready pend p w"
  shows "\<exists>p1 w1 x. redis_connect api p w = (True, p1, w1) \<and> rp_ctx p1 = Some x \<and> kv w1 = kv w \<and> pend w1 = []"
proof (cases "rp_ctx p")
  case None
  obtain x w1 where 1: "redisConnectWithTimeout api (rp_ip p) (rp_port p) (timeval_of (rp_conn_timeout_ms p)) w = (ConnOk x, w1)"
    "kv w1 = kv w" "pend w1 = []" using redis_lawsD(1) [OF assms(1)] by blast
  obtain w2 where "redisSetTimeout api x (timeval_of (rp_rw_timeout_ms p)) w1 = (0, w2)" "kv w2 = kv w1" "pend w2 = pend w1"
    using redis_lawsD(2) [OF assms(1)] by blast
  with None 1 show ?thesis by (simp add: redis_connect_def)
next
  case (Some x)
  with assms(2) show ?thesis by (simp add: redis_connect_def ready_def)
qed

lemma execute_ready:
  assumes "redis_laws api kv pend" "ready pend p w"
  shows "\<exists>p1 w1. execute api cmd p w = Some (server_response (kv w) cmd, p1, w1) \<and> ready pend p1 w1 \<and>
    kv w1 = server_effect cmd (kv w)"
proof -
  obtain p1 w1 x where c: "redis_connect api p w = (True, p1, w1)" "rp_ctx p1 = Some x" "kv w1 = kv w" "pend w1 = []"
    using connect_ready [OF assms] by blast
  obtain w2 where "redisCommandArgv api x cmd w1 = (Some (server_reply (kv w1) cmd), w2)"
    "kv w2 = server_effect cmd (kv w1)" "pend w2 = []" using redis_lawsD(3) [OF assms(1) c(4)] by blast
  with c show ?thesis by (simp add: execute_def parse_server_reply ready_def)
qed

lemma append_loop_ready:
  assumes "redis_laws api kv pend"
  shows "\<exists>w1. append_loop api x cmds w = (True, w1) \<and> kv w1 = fold server_effect cmds (kv w) \<and>
    pend w1 = pend w @ server_replies (kv w) cmds"
proof (induction cmds arbitrary: w)
  case (Cons cmd cmds)
  obtain w1 where "redisAppendCommandArgv api x cmd w = (0, w1)" "kv w1 = server_effect cmd (kv w)"
    "pend w1 = pend w @ [server_reply (kv w) cmd]" using redis_lawsD(4) [OF assms] by blast
  with Cons [of w1] show ?case by auto
qed simp

lemma reply_loop_ready:
  assumes "redis_laws api kv pend" "pend w = server_replies st cmds"
  shows "\<exists>w1. reply_loop api (length cmds) p x w resps = Some (True, resps @ server_responses st cmds, p, w1) \<and>
    kv w1 = kv w \<and> pend w1 = []"
  using assms(2)
proof (induction cmds arbitrary: w st resps)
  case (Cons cmd cmds)
  have "pend w = server_reply st cmd # server_replies (server_effect cmd st) cmds" using Cons.prems by simp
  from redis_lawsD(5) [OF assms(1) this] obtain w1 where
    w1: "redisGetReply api x w = (0, Some (server_reply st cmd), w1)" "kv w1 = kv w"
    "pend w1 = server_replies (server_effect cmd st) cmds" by blast
  have "reply_loop api (length (cmd # cmds)) p x w resps =
      reply_loop api (length cmds) p x w1 (resps @ [server_response st cmd])" by (simp add: w1(1) parse_server_reply)
  with Cons.IH [OF w1(3), of "resps @ [server_response st cmd]"] w1(2) show ?case by simp
qed simp

lemma PipeExecute_ready:
  assumes "redis_laws api kv pend" "ready pend p w"
  shows "\<exists>p1 w1. PipeExecute api cmds [] p w = Some (True, server_responses (kv w) cmds, p1, w1) \<and> ready pend p1 w1 \<and>
    kv w1 = fold server_effect cmds (kv w)"
proof -
  obtain p1 w1 x where c: "redis_connect api p w = (True, p1, w1)" "rp_ctx p1 = Some x" "kv w1 = kv w" "pend w1 = []"
    using connect_ready [OF assms] by blast
  obtain w2 where w2: "append_loop api x cmds w1 = (True, w2)" "kv w2 = fold server_effect cmds (kv w1)"
    "pend w2 = server_replies (kv w1) cmds" using append_loop_ready [OF assms(1), of x cmds w1] c(4) by auto
  obtain w3 where "reply_loop api (length cmds) p1 x w2 [] = Some (True, server_responses (kv w1) cmds, p1, w3)"
    "kv w3 = kv w2" "pend w3 = []" using reply_loop_ready [OF assms(1) w2(3), of p1 x "[]"] by auto
  with c w2 show ?thesis by (simp add: PipeExecute_def ready_def)
qed

definition no_nul :: "string \<Rightarrow> bool" where
  "no_nul str \<longleftrightarrow> CHR 0x00 \<notin> set str"

lemma c_str_id: "no_nul str \<Longrightarrow> c_str str = str"
  unfolding no_nul_def c_str_def by (induction str) auto

lemma set_commandE:
  "\<exists>rest. set_command (k, v, e) = ''set'' # c_str k # c_str v # rest"
  by (simp add: set_command_def append_str_def append_nat_def RedisCommand_def c_str_def Let_def)

lemma set_responses:
  "server_responses st (map set_command es) = replicate (length es) ((Response REPLY_STATUS)\<lparr>resp_str := ''OK''\<rparr>)"
proof (induction es arbitrary: st)
  case (Cons e es)
  obtain k v x where "e = (k, v, x)" by (metis prod_cases3)
  with set_commandE [of k v x] obtain rest where "set_command e = ''set'' # c_str k # c_str v # rest" by auto
  with Cons show ?case
    by (simp add: server_response_def reply_types reply_text_def c_str_def)
qed simp

lemma set_effects:
  "\<forall>(k, v, e) \<in> set es. no_nul k \<and> no_nul v \<Longrightarrow>
   fold server_effect (map set_command es) st = st ++ map_of (rev (map (\<lambda>(k, v, e). (k, v)) es))"
proof (induction es arbitrary: st)
  case (Cons e es)
  obtain k v x where e: "e = (k, v, x)" by (metis prod_cases3)
  with set_commandE [of k v x] obtain rest where "set_command e = ''set'' # c_str k # c_str v # rest" by auto
  with Cons e show ?case by (simp add: c_str_id map_add_def fun_eq_iff split: option.split)
qed simp

definition get_command :: "string \<Rightarrow> redis_command" where
  "get_command key = append_str key (append_str ''get'' RedisCommand)"

lemma get_responses:
  "\<forall>k \<in> set ks. no_nul k \<Longrightarrow>
   map (\<lambda>r. if ret_code r = REPLY_STRING then (True, resp_str r) else (False, [])) (server_responses st (map get_command ks)) =
     map (\<lambda>k. case st k of Some v \<Rightarrow> (True, c_str v) | None \<Rightarrow> (False, [])) ks"
proof (induction ks)
  case (Cons k ks)
  have "get_command k = [''get'', k]" using Cons.prems
    by (simp add: get_command_def append_str_def RedisCommand_def c_str_id) (simp add: c_str_def)
  with Cons show ?case
    by (simp add: server_response_def reply_types reply_text_def Response_def split: option.split)
qed simp

lemma PipeGet_ready:
  assumes "redis_laws api kv pend" "ready pend p w" "\<forall>k \<in> set ks. no_nul k"
  shows "\<exists>p1 w1. PipeGet api ks vals p w =
    Some (True, vals @ map (\<lambda>k. case kv w k of Some v \<Rightarrow> (True, c_str v) | None \<Rightarrow> (False, [])) ks, p1, w1)"
proof -
  obtain p1 w1 where "PipeExecute api (map get_command ks) [] p w = Some (True, server_responses (kv w) (map get_command ks), p1, w1)"
    using PipeExecute_ready [OF assms(1,2)] by blast
  with get_responses [OF assms(3), of "kv w"] show ?thesis by (simp add: PipeGet_def flip: get_command_def)
qed

lemma PipeSet_ready:
  assumes "redis_laws api kv pend" "ready pend p w" "length vs = length ks" "length es = length ks"
    "\<forall>k \<in> set ks. no_nul k" "\<forall>v \<in> set vs. no_nul v"
  shows "\<exists>p1 w1. PipeSet api ks vs es p w = Some (True, p1, w1) \<and> ready pend p1 w1 \<and>
    kv w1 = kv w ++ map_of (rev (zip ks vs))"
proof -
  let ?es = "zip ks (zip vs es)"
  obtain p1 w1 where p: "PipeExecute api (map set_command ?es) [] p w =
      Some (True, server_responses (kv w) (map set_command ?es), p1, w1)" "ready pend p1 w1"
    "kv w1 = fold server_effect (map set_command ?es) (kv w)"
    using PipeExecute_ready [OF assms(1,2)] by blast
  have "\<forall>(k, v, e) \<in> set ?es. no_nul k \<and> no_nul v"
    using assms(5,6) by (auto dest: set_zip_leftD set_zip_rightD)
  moreover have "map (\<lambda>(k, v, e). (k, v)) ?es = zip ks vs" using assms(3,4)
    by (intro nth_equalityI) simp_all
  ultimately have "kv w1 = kv w ++ map_of (rev (zip ks vs))" using p(3) set_effects by metis
  moreover have "list_all (\<lambda>r. ret_code r = REPLY_STATUS \<and> resp_str r = ''OK'') (server_responses (kv w) (map set_command ?es))"
    by (simp add: set_responses list_all_iff Response_def)
  ultimately show ?thesis using p(1,2) assms(3,4) by (simp add: PipeSet_def)
qed

lemma Set_ready:
  assumes "redis_laws api kv pend" "ready pend p w" "no_nul key" "no_nul val"
  shows "\<exists>p1 w1. redis_Set api key val e p w = Some (True, p1, w1) \<and> ready pend p1 w1 \<and> kv w1 = (kv w)(key \<mapsto> val)"
proof -
  obtain rest where c: "set_command (key, val, e) = ''set'' # c_str key # c_str val # rest" using set_commandE by blast
  obtain p1 w1 where p: "execute api (set_command (key, val, e)) p w = Some (server_response (kv w) (set_command (key, val, e)), p1, w1)"
    "ready pend p1 w1" "kv w1 = server_effect (set_command (key, val, e)) (kv w)"
    using execute_ready [OF assms(1,2)] by blast
  have "(if e > 0 then execute api (append_nat e (fold append_str [''set'', key, val, ''ex''] RedisCommand)) p w
      else ExecuteArgv api [''set'', key, val] p w) = execute api (set_command (key, val, e)) p w"
    by (simp add: set_command_def ExecuteArgv_def)
  moreover have "server_response (kv w) (set_command (key, val, e)) = (Response REPLY_STATUS)\<lparr>resp_str := ''OK''\<rparr>"
    using set_responses [of "kv w" "[(key, val, e)]"] by simp
  ultimately show ?thesis using p c assms(3,4) by (simp add: redis_Set_def c_str_id Response_def)
qed

lemma Get_ready:
  assumes "redis_laws api kv pend" "ready pend p w" "no_nul key"
  shows "\<exists>p1 w1. redis_Get api key old p w =
    Some (case kv w key of Some v \<Rightarrow> (True, c_str v, p1, w1) | None \<Rightarrow> (False, old, p1, w1))"
proof -
  have g: "get_command key = [''get'', key]" "fold append_str [''get'', key] RedisCommand = get_command key"
    using c_str_id [OF assms(3)] c_str_id [of "''get''"] by (simp_all add: get_command_def append_str_def RedisCommand_def no_nul_def)
  obtain p1 w1 where "execute api (get_command key) p w = Some (server_response (kv w) (get_command key), p1, w1)"
    using execute_ready [OF assms(1,2)] by blast
  then show ?thesis
    unfolding redis_Get_def ExecuteArgv_def g(2)
    by (auto simp: g(1) server_response_def reply_types reply_text_def Response_def split: option.split)
qed

text \<open>A server in memory, with its store and the replies not yet read.\<close>

definition memory_redis :: "(unit, (string \<Rightarrow> string option) \<times> redis_reply list) hiredis" where
  "memory_redis =
     \<lparr> redisConnectWithTimeout = (\<lambda>ip port tv (st, rs). (ConnOk (), (st, []))),
       redisSetTimeout = (\<lambda>x tv w. (0, w)),
       redisCommandArgv = (\<lambda>x cmd (st, rs). (Some (server_reply st cmd), (server_effect cmd st, rs))),
       redisvCommand = (\<lambda>x fmt args w. (None, w)),
       redisAppendCommandArgv = (\<lambda>x cmd (st, rs). (0, (server_effect cmd st, rs @ [server_reply st cmd]))),
       redisGetReply = (\<lambda>x (st, rs). case rs of [] \<Rightarrow> (- 1, None, (st, rs)) | r # rs' \<Rightarrow> (0, Some r, (st, rs'))),
       redisFree = (\<lambda>x w. w) \<rparr>"

lemma memory_redis_laws: "redis_laws memory_redis fst snd"
  by (auto simp: redis_laws_def memory_redis_def split: prod.split)

subsection \<open>Properties\<close>



text \<open>
  (C14) A broken connection is never used again, whatever the library answers.  A command reports that
  the connection was refused exactly when it leaves the proxy without a connection, and a pipeline
  fails exactly then; so the replies still outstanding on a failed connection are never taken for
  the replies to later commands.
\<close>

theorem redis_failed_connection_dropped:
  "(execute api cmd p w = Some (resp, p1, w1) \<longrightarrow> (ret_code resp = CONNECTION_REFUSED \<longleftrightarrow> rp_ctx p1 = None)) \<and>
   (PipeExecute api cmds resps p w = Some (ok, resps', p2, w2) \<longrightarrow> (\<not> ok \<longleftrightarrow> rp_ctx p2 = None))"
proof (intro conjI impI)
  obtain b q v where c: "redis_connect api p w = (b, q, v)" by (metis prod_cases3)
  have b: "b \<longleftrightarrow> rp_ctx q \<noteq> None" by (rule redis_connect_ctx [OF c])
  {
    assume ex: "execute api cmd p w = Some (resp, p1, w1)"
    show "ret_code resp = CONNECTION_REFUSED \<longleftrightarrow> rp_ctx p1 = None"
    proof (cases "rp_ctx q")
      case None
      with ex c show ?thesis by (auto simp: execute_def Response_def)
    next
      case (Some x)
      obtain r v' where r: "redisCommandArgv api x cmd v = (r, v')" by fastforce
      with Some b c ex have "parse_redis_reply api r q v' = Some (resp, p1, w1)" by (simp add: execute_def)
      from parse_redis_reply_ctx [OF this] Some show ?thesis by simp
    qed
  next
    assume ex: "PipeExecute api cmds resps p w = Some (ok, resps', p2, w2)"
    show "\<not> ok \<longleftrightarrow> rp_ctx p2 = None"
    proof (cases "rp_ctx q")
      case None
      with ex c show ?thesis by (auto simp: PipeExecute_def)
    next
      case (Some x)
      obtain a v' where a: "append_loop api x cmds v = (a, v')" by fastforce
      show ?thesis
      proof (cases a)
        case True
        with Some b c ex a have "reply_loop api (length cmds) q x v' resps = Some (ok, resps', p2, w2)" by (simp add: PipeExecute_def)
        from reply_loop_ctx [OF this] Some show ?thesis by simp
      next
        case False
        with Some b c ex a have "ok = False" "redis_close api q v' = (p2, w2)" by (simp_all add: PipeExecute_def)
        then show ?thesis using redis_close_ctx [of api q v' p2 w2] by simp
      qed
    qed
  }
qed

theorem redis_failed_connection_dropped_witness:
  "\<exists>resp p1 w1. execute (memory_redis\<lparr>redisCommandArgv := (\<lambda>x cmd w. (None, w))\<rparr>) [''get'', ''a'']
      (RedisProxy ''127.0.0.1'' 6379 100 100) ((\<lambda>_. None), []) = Some (resp, p1, w1) \<and>
    ret_code resp = CONNECTION_REFUSED \<and> rp_ctx p1 = None"
proof -
  let ?api = "memory_redis\<lparr>redisCommandArgv := (\<lambda>x cmd w. (None, w))\<rparr>"
  obtain resp p1 w1 where e: "execute ?api [''get'', ''a''] (RedisProxy ''127.0.0.1'' 6379 100 100) ((\<lambda>_. None), []) =
      Some (resp, p1, w1)" "ret_code resp = CONNECTION_REFUSED"
    by (simp add: execute_def redis_connect_def RedisProxy_def memory_redis_def parse_redis_reply_def redis_close_def Response_def)
  with redis_failed_connection_dropped [of ?api] show ?thesis by blast
qed

end
