(* ===== verification/Json_Helper.thy ===== *)
theory Json_Helper
  imports Cxx_Text
begin

text \<open>
  The JSON mapping of \<^verbatim>\<open>src/json_helper/marshal.h\<close>, \<^verbatim>\<open>unmarshal.h\<close>, \<^verbatim>\<open>json_helper.h\<close> and \<^verbatim>\<open>common.h\<close>.  The
  template overloads are selected by the C++ type, which is data here: one definition per
  overload, taking the function for the element type where the template calls it, and two
  functions by recursion on the type that select them.  The library jsoncpp is a record of
  functions on its values, of type \<open>'j\<close>; floating point numbers are of a type \<open>'d\<close>.  An exception is
  \<^const>\<open>None\<close>.
\<close>

subsection \<open>The interface of jsoncpp\<close>

text \<open>
  \<open>index_ref\<close> and \<open>member_ref\<close> are the value that a reference \<open>root[i]\<close>, \<open>root[key]\<close> denotes before it is
  assigned, \<open>index_put\<close> and \<open>member_put\<close> the root after it has been; \<open>index_get\<close> and \<open>member_get\<close> are the
  operators on a constant root.
\<close>

record ('j, 'd) jsoncpp =
  jv_null :: 'j
  jv_int :: "int \<Rightarrow> 'j"
  jv_uint :: "int \<Rightarrow> 'j"
  jv_float :: "'d \<Rightarrow> 'j"
  jv_double :: "'d \<Rightarrow> 'j"
  jv_bool :: "bool \<Rightarrow> 'j"
  jv_string :: "string \<Rightarrow> 'j"
  isIntegral :: "'j \<Rightarrow> bool"
  isDouble :: "'j \<Rightarrow> bool"
  isBool :: "'j \<Rightarrow> bool"
  isString :: "'j \<Rightarrow> bool"
  isArray :: "'j \<Rightarrow> bool"
  isObject :: "'j \<Rightarrow> bool"
  asInt :: "'j \<Rightarrow> int option"
  asInt64 :: "'j \<Rightarrow> int option"
  asUInt :: "'j \<Rightarrow> int option"
  asUInt64 :: "'j \<Rightarrow> int option"
  asFloat :: "'j \<Rightarrow> 'd option"
  asDouble :: "'j \<Rightarrow> 'd option"
  asBool :: "'j \<Rightarrow> bool option"
  asString :: "'j \<Rightarrow> string option"
  jv_size :: "'j \<Rightarrow> nat"
  index_get :: "nat \<Rightarrow> 'j \<Rightarrow> 'j option"
  member_get :: "string \<Rightarrow> 'j \<Rightarrow> 'j option"
  index_ref :: "nat \<Rightarrow> 'j \<Rightarrow> 'j option"
  index_put :: "nat \<Rightarrow> 'j \<Rightarrow> 'j \<Rightarrow> 'j option"
  member_ref :: "string \<Rightarrow> 'j \<Rightarrow> 'j option"
  member_put :: "string \<Rightarrow> 'j \<Rightarrow> 'j \<Rightarrow> 'j option"
  jv_append :: "'j \<Rightarrow> 'j \<Rightarrow> 'j option"
  getMemberNames :: "'j \<Rightarrow> string list option"
  reader_parse :: "string \<Rightarrow> 'j option"
  styled_write :: "'j \<Rightarrow> string"
  fast_write :: "'j \<Rightarrow> string"

subsection \<open>C++ types and values\<close>

datatype key_type = KString | KInt32 | KUInt32 | KInt64 | KUInt64

datatype ctype =
    TInt32 | TInt64 | TUInt32 | TUInt64 | TFloat | TDouble | TBool | TString | TEnum
  | TVector ctype | TMap key_type ctype | TUnorderedMap key_type ctype | TSet ctype | TUnorderedSet ctype
  | TPointer ctype | TClass "(string \<times> ctype) list" | TUncaught

datatype mkey = MInt int | MStr string

instantiation mkey :: linorder
begin

fun less_eq_mkey :: "mkey \<Rightarrow> mkey \<Rightarrow> bool" where
  "less_eq_mkey (MInt i) (MInt j) \<longleftrightarrow> i \<le> j"
| "less_eq_mkey (MInt i) (MStr b) \<longleftrightarrow> True"
| "less_eq_mkey (MStr a) (MInt j) \<longleftrightarrow> False"
| "less_eq_mkey (MStr a) (MStr b) \<longleftrightarrow> a \<le> b"

definition less_mkey :: "mkey \<Rightarrow> mkey \<Rightarrow> bool" where
  "less_mkey a b \<longleftrightarrow> a \<le> b \<and> \<not> b \<le> a"

instance
proof
  fix x y z :: mkey
  show "x < y \<longleftrightarrow> x \<le> y \<and> \<not> y \<le> x" by (simp add: less_mkey_def)
  show "x \<le> x" by (cases x) simp_all
  show "x \<le> z" if "x \<le> y" "y \<le> z" using that by (cases x; cases y; cases z) auto
  show "x = y" if "x \<le> y" "y \<le> x" using that by (cases x; cases y) auto
  show "x \<le> y \<or> y \<le> x" by (cases x; cases y) auto
qed

end

text \<open>
  Values.  A map is its list of entries in key order (for an unordered map the order has no meaning), a
  set the list of its elements in the order in which it is iterated, a class its fields.
\<close>

datatype 'd cval =
    VInt int | VReal 'd | VBool bool | VString string | VList "'d cval list" | VMap "(mkey \<times> 'd cval) list"
  | VPtr "'d cval option" | VClass "'d cval list" | VOpaque

definition kNullptrJsonStr :: string where
  "kNullptrJsonStr = ''nullptr''"

subsection \<open>Marshalling\<close>

type_synonym ('j, 'd) marshaller = "'d cval \<Rightarrow> 'j \<Rightarrow> (bool \<times> 'j) option"

definition Marshal_uncaught :: "('j, 'd) marshaller" where
  "Marshal_uncaught obj root = Some (False, root)"

definition Marshal_int32 :: "('j, 'd) jsoncpp \<Rightarrow> ('j, 'd) marshaller" where
  "Marshal_int32 J obj root = (case obj of VInt i \<Rightarrow> Some (True, jv_int J i) | _ \<Rightarrow> None)"

definition Marshal_int64 :: "('j, 'd) jsoncpp \<Rightarrow> ('j, 'd) marshaller" where
  "Marshal_int64 J obj root = (case obj of VInt i \<Rightarrow> Some (True, jv_int J i) | _ \<Rightarrow> None)"

definition Marshal_uint32 :: "('j, 'd) jsoncpp \<Rightarrow> ('j, 'd) marshaller" where
  "Marshal_uint32 J obj root = (case obj of VInt i \<Rightarrow> Some (True, jv_uint J i) | _ \<Rightarrow> None)"

definition Marshal_uint64 :: "('j, 'd) jsoncpp \<Rightarrow> ('j, 'd) marshaller" where
  "Marshal_uint64 J obj root = (case obj of VInt i \<Rightarrow> Some (True, jv_uint J i) | _ \<Rightarrow> None)"

definition Marshal_enum :: "('j, 'd) jsoncpp \<Rightarrow> ('j, 'd) marshaller" where
  "Marshal_enum J obj root = (case obj of VInt i \<Rightarrow> Some (True, jv_int J i) | _ \<Rightarrow> None)"

definition Marshal_float :: "('j, 'd) jsoncpp \<Rightarrow> ('j, 'd) marshaller" where
  "Marshal_float J obj root = (case obj of VReal d \<Rightarrow> Some (True, jv_float J d) | _ \<Rightarrow> None)"

definition Marshal_double :: "('j, 'd) jsoncpp \<Rightarrow> ('j, 'd) marshaller" where
  "Marshal_double J obj root = (case obj of VReal d \<Rightarrow> Some (True, jv_double J d) | _ \<Rightarrow> None)"

definition Marshal_bool :: "('j, 'd) jsoncpp \<Rightarrow> ('j, 'd) marshaller" where
  "Marshal_bool J obj root = (case obj of VBool b \<Rightarrow> Some (True, jv_bool J b) | _ \<Rightarrow> None)"

definition Marshal_string :: "('j, 'd) jsoncpp \<Rightarrow> ('j, 'd) marshaller" where
  "Marshal_string J obj root = (case obj of VString str \<Rightarrow> Some (True, jv_string J str) | _ \<Rightarrow> None)"

definition Marshal_pointer :: "('j, 'd) jsoncpp \<Rightarrow> ('j, 'd) marshaller \<Rightarrow> ('j, 'd) marshaller" where
  "Marshal_pointer J m obj root =
     (case obj of
        VPtr None \<Rightarrow> Some (True, jv_string J kNullptrJsonStr)
      | VPtr (Some v) \<Rightarrow> m v root
      | _ \<Rightarrow> None)"

text \<open>The body of the loop: marshal into the referenced element and combine the results.\<close>

definition marshal_at :: "('j \<Rightarrow> 'j option) \<Rightarrow> ('j \<Rightarrow> 'j \<Rightarrow> 'j option) \<Rightarrow> ('j \<Rightarrow> (bool \<times> 'j) option) \<Rightarrow>
    bool \<times> 'j \<Rightarrow> (bool \<times> 'j) option" where
  "marshal_at ref put m st =
     (case st of (ret, root) \<Rightarrow>
        case ref root of
          None \<Rightarrow> None
        | Some e \<Rightarrow>
            (case m e of
               None \<Rightarrow> None
             | Some (ok, e') \<Rightarrow>
                 (case put e' root of None \<Rightarrow> None | Some root' \<Rightarrow> Some (if \<not> ok then False else ret, root'))))"

fun vector_loop :: "('j, 'd) jsoncpp \<Rightarrow> ('j, 'd) marshaller \<Rightarrow> nat \<Rightarrow> 'd cval list \<Rightarrow> bool \<times> 'j \<Rightarrow> (bool \<times> 'j) option" where
  "vector_loop J m i [] st = Some st"
| "vector_loop J m i (v # vs) st =
     (case marshal_at (index_ref J i) (index_put J i) (m v) st of
        None \<Rightarrow> None
      | Some st' \<Rightarrow> vector_loop J m (Suc i) vs st')"

definition Marshal_vector :: "('j, 'd) jsoncpp \<Rightarrow> ('j, 'd) marshaller \<Rightarrow> ('j, 'd) marshaller" where
  "Marshal_vector J m obj root = (case obj of VList vs \<Rightarrow> vector_loop J m 0 vs (True, root) | _ \<Rightarrow> None)"

text \<open>The member under which an entry is stored: its key, or the digits of a number.\<close>

fun member_name :: "mkey \<Rightarrow> string" where
  "member_name (MStr str) = str"
| "member_name (MInt i) = int_str i"

fun map_loop :: "('j, 'd) jsoncpp \<Rightarrow> ('j, 'd) marshaller \<Rightarrow> (mkey \<times> 'd cval) list \<Rightarrow> bool \<times> 'j \<Rightarrow> (bool \<times> 'j) option" where
  "map_loop J m [] st = Some st"
| "map_loop J m ((k, v) # kvs) st =
     (case marshal_at (member_ref J (member_name k)) (member_put J (member_name k)) (m v) st of
        None \<Rightarrow> None
      | Some st' \<Rightarrow> map_loop J m kvs st')"

definition Marshal_map :: "('j, 'd) jsoncpp \<Rightarrow> ('j, 'd) marshaller \<Rightarrow> ('j, 'd) marshaller" where
  "Marshal_map J m obj root = (case obj of VMap kvs \<Rightarrow> map_loop J m kvs (True, root) | _ \<Rightarrow> None)"

definition Marshal_unordered_map :: "('j, 'd) jsoncpp \<Rightarrow> ('j, 'd) marshaller \<Rightarrow> ('j, 'd) marshaller" where
  "Marshal_unordered_map J m obj root = (case obj of VMap kvs \<Rightarrow> map_loop J m kvs (True, root) | _ \<Rightarrow> None)"

fun set_loop :: "('j, 'd) jsoncpp \<Rightarrow> ('j, 'd) marshaller \<Rightarrow> 'd cval list \<Rightarrow> bool \<times> 'j \<Rightarrow> (bool \<times> 'j) option" where
  "set_loop J m [] st = Some st"
| "set_loop J m (v # vs) st =
     (case st of (ret, root) \<Rightarrow>
        case m v (jv_null J) of
          None \<Rightarrow> None
        | Some (ok, elem) \<Rightarrow>
            if \<not> ok then set_loop J m vs (False, root)
            else (case jv_append J elem root of None \<Rightarrow> None | Some root' \<Rightarrow> set_loop J m vs (ret, root')))"

definition Marshal_set :: "('j, 'd) jsoncpp \<Rightarrow> ('j, 'd) marshaller \<Rightarrow> ('j, 'd) marshaller" where
  "Marshal_set J m obj root = (case obj of VList vs \<Rightarrow> set_loop J m vs (True, root) | _ \<Rightarrow> None)"

definition Marshal_unordered_set :: "('j, 'd) jsoncpp \<Rightarrow> ('j, 'd) marshaller \<Rightarrow> ('j, 'd) marshaller" where
  "Marshal_unordered_set J m obj root = (case obj of VList vs \<Rightarrow> set_loop J m vs (True, root) | _ \<Rightarrow> None)"

text \<open>The member function generated by \<open>JSON_HELPER_MARSHAL_MEMBER_FUNCTION\<close>, field by field.\<close>

fun fields_loop :: "('j, 'd) jsoncpp \<Rightarrow> (string \<times> ('j, 'd) marshaller) list \<Rightarrow> 'd cval list \<Rightarrow> bool \<times> 'j \<Rightarrow>
    (bool \<times> 'j) option" where
  "fields_loop J [] [] st = Some st"
| "fields_loop J ((name, m) # fs) (v # vs) st =
     (case marshal_at (member_ref J name) (member_put J name) (m v) st of
        None \<Rightarrow> None
      | Some st' \<Rightarrow> fields_loop J fs vs st')"
| "fields_loop J _ _ st = None"

definition Marshal_class :: "('j, 'd) jsoncpp \<Rightarrow> (string \<times> ('j, 'd) marshaller) list \<Rightarrow> ('j, 'd) marshaller" where
  "Marshal_class J fs obj root = (case obj of VClass vs \<Rightarrow> fields_loop J fs vs (True, root) | _ \<Rightarrow> None)"

primrec Marshal :: "('j, 'd) jsoncpp \<Rightarrow> ctype \<Rightarrow> ('j, 'd) marshaller" where
  "Marshal J TInt32 = Marshal_int32 J"
| "Marshal J TInt64 = Marshal_int64 J"
| "Marshal J TUInt32 = Marshal_uint32 J"
| "Marshal J TUInt64 = Marshal_uint64 J"
| "Marshal J TFloat = Marshal_float J"
| "Marshal J TDouble = Marshal_double J"
| "Marshal J TBool = Marshal_bool J"
| "Marshal J TString = Marshal_string J"
| "Marshal J TEnum = Marshal_enum J"
| "Marshal J (TVector t) = Marshal_vector J (Marshal J t)"
| "Marshal J (TMap k t) = Marshal_map J (Marshal J t)"
| "Marshal J (TUnorderedMap k t) = Marshal_unordered_map J (Marshal J t)"
| "Marshal J (TSet t) = Marshal_set J (Marshal J t)"
| "Marshal J (TUnorderedSet t) = Marshal_unordered_set J (Marshal J t)"
| "Marshal J (TPointer t) = Marshal_pointer J (Marshal J t)"
| "Marshal J (TClass fs) = Marshal_class J (map (map_prod id (Marshal J)) fs)"
| "Marshal J TUncaught = Marshal_uncaught"

subsection \<open>Unmarshalling\<close>

text \<open>\<open>stoi\<close> and its siblings: white space, a sign, digits; anything may follow.\<close>

definition is_space :: "char \<Rightarrow> bool" where
  "is_space c \<longleftrightarrow> of_char c \<in> {9..13 :: nat} \<or> of_char c = (32 :: nat)"

definition parse_int :: "string \<Rightarrow> (bool \<times> nat) option" where
  "parse_int str =
     (let s1 = dropWhile is_space str;
          neg = (s1 \<noteq> [] \<and> hd s1 = CHR ''-'');
          s2 = (if s1 \<noteq> [] \<and> (hd s1 = CHR ''-'' \<or> hd s1 = CHR ''+'') then tl s1 else s1);
          ds = takeWhile is_digit s2
      in if ds = [] then None else Some (neg, digits_val 0 ds))"

definition stoi_range :: "int \<Rightarrow> string \<Rightarrow> int option" where
  "stoi_range bnd str =
     (case parse_int str of
        None \<Rightarrow> None
      | Some (neg, n) \<Rightarrow>
          let i = (if neg then - int n else int n) in if - bnd \<le> i \<and> i < bnd then Some i else None)"

text \<open>The unsigned ones negate modulo \<open>2^64\<close> after a minus sign.\<close>

definition stoull :: "string \<Rightarrow> int option" where
  "stoull str =
     (case parse_int str of
        None \<Rightarrow> None
      | Some (neg, n) \<Rightarrow>
          if int n < 2 ^ 64 then Some ((if neg then - int n else int n) mod 2 ^ 64) else None)"

text \<open>The key of a member name; \<open>stoul\<close> is converted to 32 bits.\<close>

fun parse_key :: "key_type \<Rightarrow> string \<Rightarrow> mkey option" where
  "parse_key KString str = Some (MStr str)"
| "parse_key KInt32 str = map_option MInt (stoi_range (2 ^ 31) str)"
| "parse_key KInt64 str = map_option MInt (stoi_range (2 ^ 63) str)"
| "parse_key KUInt32 str = map_option (\<lambda>i. MInt (i mod 2 ^ 32)) (stoull str)"
| "parse_key KUInt64 str = map_option MInt (stoull str)"

text \<open>
  The contents of a local variable \<open>T tmp;\<close> and of a map's new element, of a type: arbitrary for
  the first where the type has no constructor.  \<open>cv_less\<close> is the order of set elements.
\<close>

record 'd cxx_env =
  cv_local :: "ctype \<Rightarrow> 'd cval"
  cv_element :: "ctype \<Rightarrow> 'd cval"
  cv_less :: "'d cval \<Rightarrow> 'd cval \<Rightarrow> bool"

type_synonym ('j, 'd) unmarshaller = "'j \<Rightarrow> 'd cval \<Rightarrow> (bool \<times> 'd cval) option"

definition Unmarshal_uncaught :: "('j, 'd) unmarshaller" where
  "Unmarshal_uncaught root obj = Some (False, obj)"

definition Unmarshal_int32 :: "('j, 'd) jsoncpp \<Rightarrow> ('j, 'd) unmarshaller" where
  "Unmarshal_int32 J root obj =
     (if \<not> isIntegral J root then Some (False, obj) else map_option (\<lambda>i. (True, VInt i)) (asInt J root))"

definition Unmarshal_int64 :: "('j, 'd) jsoncpp \<Rightarrow> ('j, 'd) unmarshaller" where
  "Unmarshal_int64 J root obj =
     (if \<not> isIntegral J root then Some (False, obj) else map_option (\<lambda>i. (True, VInt i)) (asInt64 J root))"

definition Unmarshal_uint32 :: "('j, 'd) jsoncpp \<Rightarrow> ('j, 'd) unmarshaller" where
  "Unmarshal_uint32 J root obj =
     (if \<not> isIntegral J root then Some (False, obj) else map_option (\<lambda>i. (True, VInt i)) (asUInt J root))"

definition Unmarshal_uint64 :: "('j, 'd) jsoncpp \<Rightarrow> ('j, 'd) unmarshaller" where
  "Unmarshal_uint64 J root obj =
     (if \<not> isIntegral J root then Some (False, obj) else map_option (\<lambda>i. (True, VInt i)) (asUInt64 J root))"

definition Unmarshal_enum :: "('j, 'd) jsoncpp \<Rightarrow> ('j, 'd) unmarshaller" where
  "Unmarshal_enum J root obj =
     (if \<not> isIntegral J root then Some (False, obj) else map_option (\<lambda>i. (True, VInt i)) (asInt J root))"

definition Unmarshal_float :: "('j, 'd) jsoncpp \<Rightarrow> ('j, 'd) unmarshaller" where
  "Unmarshal_float J root obj =
     (if \<not> isDouble J root then Some (False, obj) else map_option (\<lambda>d. (True, VReal d)) (asFloat J root))"

definition Unmarshal_double :: "('j, 'd) jsoncpp \<Rightarrow> ('j, 'd) unmarshaller" where
  "Unmarshal_double J root obj =
     (if \<not> isDouble J root then Some (False, obj) else map_option (\<lambda>d. (True, VReal d)) (asDouble J root))"

definition Unmarshal_bool :: "('j, 'd) jsoncpp \<Rightarrow> ('j, 'd) unmarshaller" where
  "Unmarshal_bool J root obj =
     (if \<not> isBool J root then Some (False, obj) else map_option (\<lambda>b. (True, VBool b)) (asBool J root))"

definition Unmarshal_string :: "('j, 'd) jsoncpp \<Rightarrow> ('j, 'd) unmarshaller" where
  "Unmarshal_string J root obj =
     (if \<not> isString J root then Some (False, obj) else map_option (\<lambda>str. (True, VString str)) (asString J root))"

definition Unmarshal_pointer :: "('j, 'd) jsoncpp \<Rightarrow> ('j, 'd) unmarshaller \<Rightarrow> ('j, 'd) unmarshaller" where
  "Unmarshal_pointer J u root obj =
     (if isString J root \<and> asString J root = Some kNullptrJsonStr then Some (True, VPtr None)
      else case obj of
             VPtr None \<Rightarrow> Some (True, VPtr None)
           | VPtr (Some v) \<Rightarrow> map_option (map_prod id (\<lambda>v'. VPtr (Some v'))) (u root v)
           | _ \<Rightarrow> None)"

fun array_loop :: "('j, 'd) jsoncpp \<Rightarrow> ('j \<Rightarrow> (bool \<times> 'd cval) option) \<Rightarrow> ('d cval \<Rightarrow> 'd cval list \<Rightarrow> 'd cval list) \<Rightarrow>
    'j \<Rightarrow> nat list \<Rightarrow> bool \<times> 'd cval list \<Rightarrow> (bool \<times> 'd cval list) option" where
  "array_loop J u add root [] st = Some st"
| "array_loop J u add root (i # is) st =
     (case index_get J i root of
        None \<Rightarrow> None
      | Some e \<Rightarrow>
          (case u e of
             None \<Rightarrow> None
           | Some (ok, tmp) \<Rightarrow> array_loop J u add root is (if \<not> ok then False else fst st, add tmp (snd st))))"

definition Unmarshal_vector :: "('j, 'd) jsoncpp \<Rightarrow> 'd cval \<Rightarrow> ('j, 'd) unmarshaller \<Rightarrow> ('j, 'd) unmarshaller" where
  "Unmarshal_vector J tmp u root obj =
     (if \<not> isArray J root then Some (False, obj)
      else map_option (map_prod id VList)
             (array_loop J (\<lambda>e. u e tmp) (\<lambda>v vs. vs @ [v]) root [0..<jv_size J root] (True, [])))"

fun set_insert :: "('d cval \<Rightarrow> 'd cval \<Rightarrow> bool) \<Rightarrow> 'd cval \<Rightarrow> 'd cval list \<Rightarrow> 'd cval list" where
  "set_insert lt v [] = [v]"
| "set_insert lt v (w # ws) =
     (if lt v w then v # w # ws else if lt w v then w # set_insert lt v ws else w # ws)"

definition Unmarshal_set :: "('j, 'd) jsoncpp \<Rightarrow> ('d cval \<Rightarrow> 'd cval \<Rightarrow> bool) \<Rightarrow> 'd cval \<Rightarrow> ('j, 'd) unmarshaller \<Rightarrow>
    ('j, 'd) unmarshaller" where
  "Unmarshal_set J lt tmp u root obj =
     (if \<not> isArray J root then Some (False, obj)
      else map_option (map_prod id VList)
             (array_loop J (\<lambda>e. u e tmp) (set_insert lt) root [0..<jv_size J root] (True, [])))"

text \<open>An unordered set is iterated in an unspecified order; here new elements come last.\<close>

definition Unmarshal_unordered_set :: "('j, 'd) jsoncpp \<Rightarrow> 'd cval \<Rightarrow> ('j, 'd) unmarshaller \<Rightarrow> ('j, 'd) unmarshaller" where
  "Unmarshal_unordered_set J tmp u root obj =
     (if \<not> isArray J root then Some (False, obj)
      else map_option (map_prod id VList)
             (array_loop J (\<lambda>e. u e tmp) (\<lambda>v vs. if v \<in> set vs then vs else vs @ [v]) root [0..<jv_size J root] (True, [])))"

text \<open>Maps: \<open>obj[key]\<close> creates an element for a new key, which is then unmarshalled into.\<close>

fun mset_entry :: "mkey \<Rightarrow> 'v \<Rightarrow> (mkey \<times> 'v) list \<Rightarrow> (mkey \<times> 'v) list" where
  "mset_entry k v [] = [(k, v)]"
| "mset_entry k v ((k', v') # m) =
     (if k < k' then (k, v) # (k', v') # m else if k = k' then (k, v) # m else (k', v') # mset_entry k v m)"

fun members_loop :: "('j, 'd) jsoncpp \<Rightarrow> (string \<Rightarrow> mkey option) \<Rightarrow> 'd cval \<Rightarrow> ('j, 'd) unmarshaller \<Rightarrow> 'j \<Rightarrow> string list \<Rightarrow>
    bool \<times> (mkey \<times> 'd cval) list \<Rightarrow> (bool \<times> (mkey \<times> 'd cval) list) option" where
  "members_loop J key new u root [] st = Some st"
| "members_loop J key new u root (name # names) st =
     (case (member_get J name root, key name) of
        (Some e, Some k) \<Rightarrow>
          (case u e (case map_of (snd st) k of None \<Rightarrow> new | Some v \<Rightarrow> v) of
             None \<Rightarrow> None
           | Some (ok, v) \<Rightarrow>
               members_loop J key new u root names (if \<not> ok then False else fst st, mset_entry k v (snd st)))
      | _ \<Rightarrow> None)"

definition unmarshal_members :: "('j, 'd) jsoncpp \<Rightarrow> key_type \<Rightarrow> 'd cval \<Rightarrow> ('j, 'd) unmarshaller \<Rightarrow> ('j, 'd) unmarshaller" where
  "unmarshal_members J kt new u root obj =
     (if \<not> isObject J root then Some (False, obj)
      else case getMemberNames J root of
             None \<Rightarrow> None
           | Some mems \<Rightarrow>
               map_option (map_prod id VMap) (members_loop J (parse_key kt) new u root mems (True, [])))"

text \<open>
  The overload for \<open>std::map<uint32_t, T>\<close> indexes the address of the pointer instead of the map and
  cannot be instantiated; it has no behaviour (\<^const>\<open>None\<close>).
\<close>

definition Unmarshal_map :: "('j, 'd) jsoncpp \<Rightarrow> key_type \<Rightarrow> 'd cval \<Rightarrow> ('j, 'd) unmarshaller \<Rightarrow> ('j, 'd) unmarshaller" where
  "Unmarshal_map J kt new u root obj = (if kt = KUInt32 then None else unmarshal_members J kt new u root obj)"

definition Unmarshal_unordered_map :: "('j, 'd) jsoncpp \<Rightarrow> key_type \<Rightarrow> 'd cval \<Rightarrow> ('j, 'd) unmarshaller \<Rightarrow> ('j, 'd) unmarshaller" where
  "Unmarshal_unordered_map J kt new u root obj = unmarshal_members J kt new u root obj"

text \<open>The member function generated by \<open>JSON_HELPER_UNMARSHAL_MEMBER_FUNCTION\<close>.\<close>

fun unmarshal_fields :: "('j, 'd) jsoncpp \<Rightarrow> (string \<times> ('j, 'd) unmarshaller) list \<Rightarrow> 'j \<Rightarrow> 'd cval list \<Rightarrow>
    (bool \<times> 'd cval list) option" where
  "unmarshal_fields J [] root [] = Some (True, [])"
| "unmarshal_fields J ((name, u) # fs) root (v # vs) =
     (case member_get J name root of
        None \<Rightarrow> None
      | Some e \<Rightarrow>
          (case u e v of
             None \<Rightarrow> None
           | Some (ok, v') \<Rightarrow>
               (case unmarshal_fields J fs root vs of
                  None \<Rightarrow> None
                | Some (ret, vs') \<Rightarrow> Some (if \<not> ok then False else ret, v' # vs'))))"
| "unmarshal_fields J _ root _ = None"

definition Unmarshal_class :: "('j, 'd) jsoncpp \<Rightarrow> (string \<times> ('j, 'd) unmarshaller) list \<Rightarrow> ('j, 'd) unmarshaller" where
  "Unmarshal_class J fs root obj =
     (case obj of VClass vs \<Rightarrow> map_option (map_prod id VClass) (unmarshal_fields J fs root vs) | _ \<Rightarrow> None)"

primrec Unmarshal :: "('j, 'd) jsoncpp \<Rightarrow> 'd cxx_env \<Rightarrow> ctype \<Rightarrow> ('j, 'd) unmarshaller" where
  "Unmarshal J E TInt32 = Unmarshal_int32 J"
| "Unmarshal J E TInt64 = Unmarshal_int64 J"
| "Unmarshal J E TUInt32 = Unmarshal_uint32 J"
| "Unmarshal J E TUInt64 = Unmarshal_uint64 J"
| "Unmarshal J E TFloat = Unmarshal_float J"
| "Unmarshal J E TDouble = Unmarshal_double J"
| "Unmarshal J E TBool = Unmarshal_bool J"
| "Unmarshal J E TString = Unmarshal_string J"
| "Unmarshal J E TEnum = Unmarshal_enum J"
| "Unmarshal J E (TVector t) = Unmarshal_vector J (cv_local E t) (Unmarshal J E t)"
| "Unmarshal J E (TMap k t) = Unmarshal_map J k (cv_element E t) (Unmarshal J E t)"
| "Unmarshal J E (TUnorderedMap k t) = Unmarshal_unordered_map J k (cv_element E t) (Unmarshal J E t)"
| "Unmarshal J E (TSet t) = Unmarshal_set J (cv_less E) (cv_local E t) (Unmarshal J E t)"
| "Unmarshal J E (TUnorderedSet t) = Unmarshal_unordered_set J (cv_local E t) (Unmarshal J E t)"
| "Unmarshal J E (TPointer t) = Unmarshal_pointer J (Unmarshal J E t)"
| "Unmarshal J E (TClass fs) = Unmarshal_class J (map (map_prod id (Unmarshal J E)) fs)"
| "Unmarshal J E TUncaught = Unmarshal_uncaught"

subsection \<open>Text\<close>

definition Unmarshal_text :: "('j, 'd) jsoncpp \<Rightarrow> 'd cxx_env \<Rightarrow> ctype \<Rightarrow> string \<Rightarrow> 'd cval \<Rightarrow> (bool \<times> 'd cval) option" where
  "Unmarshal_text J E t str obj =
     (case reader_parse J str of None \<Rightarrow> Some (False, obj) | Some root \<Rightarrow> Unmarshal J E t root obj)"

definition Marshal_text :: "('j, 'd) jsoncpp \<Rightarrow> ctype \<Rightarrow> 'd cval \<Rightarrow> bool \<Rightarrow> (bool \<times> string) option" where
  "Marshal_text J t obj with_style =
     map_option (\<lambda>(ret, root). (ret, if with_style then styled_write J root else fast_write J root))
       (Marshal J t obj (jv_null J))"

definition strip_newline :: "string \<Rightarrow> string" where
  "strip_newline res = (if last res = CHR 0x0A then butlast res else res)"

definition ToString :: "('j, 'd) jsoncpp \<Rightarrow> ctype \<Rightarrow> 'd cval \<Rightarrow> string option" where
  "ToString J t obj =
     map_option (\<lambda>(ret, res). if \<not> ret then [] else strip_newline res) (Marshal_text J t obj False)"

definition ToStringFormatted :: "('j, 'd) jsoncpp \<Rightarrow> ctype \<Rightarrow> 'd cval \<Rightarrow> string option" where
  "ToStringFormatted J t obj =
     map_option (\<lambda>(ret, res). if \<not> ret then [] else strip_newline res) (Marshal_text J t obj True)"

end
