(* ===== verification/Json_Roundtrip.thy ===== *)
theory Json_Roundtrip
  imports Json_Helper "HOL-Library.Countable"
begin

text \<open>
  What the JSON mapping promises: the typing of C++ values, the JSON value that stands for a value of a
  type, that \<open>Marshal\<close> produces it and that \<open>Unmarshal\<close> reads it back.  jsoncpp enters through laws
  on a \<open>view\<close> of its values as JSON values.
\<close>

subsection \<open>Typing\<close>

definition in_range :: "int \<Rightarrow> int \<Rightarrow> int \<Rightarrow> bool" where
  "in_range lo hi i \<longleftrightarrow> lo \<le> i \<and> i < hi"

fun key_typed :: "key_type \<Rightarrow> mkey \<Rightarrow> bool" where
  "key_typed KString (MStr str) \<longleftrightarrow> True"
| "key_typed KInt32 (MInt i) \<longleftrightarrow> in_range (- (2 ^ 31)) (2 ^ 31) i"
| "key_typed KInt64 (MInt i) \<longleftrightarrow> in_range (- (2 ^ 63)) (2 ^ 63) i"
| "key_typed KUInt32 (MInt i) \<longleftrightarrow> in_range 0 (2 ^ 32) i"
| "key_typed KUInt64 (MInt i) \<longleftrightarrow> in_range 0 (2 ^ 64) i"
| "key_typed _ _ \<longleftrightarrow> False"

definition omap_ok :: "(mkey \<times> 'v) list \<Rightarrow> bool" where
  "omap_ok m \<longleftrightarrow> sorted_wrt (<) (map fst m)"

text \<open>\<open>typed flt t v\<close>: \<open>v\<close> is a value of the C++ type \<open>t\<close>; \<open>flt\<close> are the single precision numbers.\<close>

primrec typed :: "('d \<Rightarrow> bool) \<Rightarrow> ctype \<Rightarrow> 'd cval \<Rightarrow> bool" where
  "typed flt TInt32 = (\<lambda>v. \<exists>i. v = VInt i \<and> in_range (- (2 ^ 31)) (2 ^ 31) i)"
| "typed flt TInt64 = (\<lambda>v. \<exists>i. v = VInt i \<and> in_range (- (2 ^ 63)) (2 ^ 63) i)"
| "typed flt TUInt32 = (\<lambda>v. \<exists>i. v = VInt i \<and> in_range 0 (2 ^ 32) i)"
| "typed flt TUInt64 = (\<lambda>v. \<exists>i. v = VInt i \<and> in_range 0 (2 ^ 64) i)"
| "typed flt TFloat = (\<lambda>v. \<exists>d. v = VReal d \<and> flt d)"
| "typed flt TDouble = (\<lambda>v. \<exists>d. v = VReal d)"
| "typed flt TBool = (\<lambda>v. \<exists>b. v = VBool b)"
| "typed flt TString = (\<lambda>v. \<exists>str. v = VString str)"
| "typed flt TEnum = (\<lambda>v. \<exists>i. v = VInt i \<and> in_range (- (2 ^ 31)) (2 ^ 31) i)"
| "typed flt (TVector t) = (\<lambda>v. \<exists>vs. v = VList vs \<and> (\<forall>x \<in> set vs. typed flt t x))"
| "typed flt (TMap k t) =
     (\<lambda>v. \<exists>kvs. v = VMap kvs \<and> omap_ok kvs \<and> (\<forall>(x, y) \<in> set kvs. key_typed k x \<and> typed flt t y))"
| "typed flt (TUnorderedMap k t) =
     (\<lambda>v. \<exists>kvs. v = VMap kvs \<and> omap_ok kvs \<and> (\<forall>(x, y) \<in> set kvs. key_typed k x \<and> typed flt t y))"
| "typed flt (TSet t) = (\<lambda>v. \<exists>vs. v = VList vs \<and> (\<forall>x \<in> set vs. typed flt t x))"
| "typed flt (TUnorderedSet t) = (\<lambda>v. \<exists>vs. v = VList vs \<and> (\<forall>x \<in> set vs. typed flt t x))"
| "typed flt (TPointer t) = (\<lambda>v. v = VPtr None \<or> (\<exists>x. v = VPtr (Some x) \<and> typed flt t x))"
| "typed flt (TClass fs) = (\<lambda>v. \<exists>vs. v = VClass vs \<and> list_all2 snd (map (map_prod id (typed flt)) fs) vs)"
| "typed flt TUncaught = (\<lambda>v. v = VOpaque)"

text \<open>The initial contents of variables are values of their types.\<close>

definition env_typed :: "('d \<Rightarrow> bool) \<Rightarrow> 'd cxx_env \<Rightarrow> bool" where
  "env_typed flt E \<longleftrightarrow> (\<forall>t. typed flt t (cv_local E t) \<and> typed flt t (cv_element E t))"

subsection \<open>The contract of jsoncpp\<close>

datatype 'd json =
    JNull | JInt int | JReal 'd | JBool bool | JString string | JArray "'d json list" | JObject "(string \<times> 'd json) list"

instance json :: (countable) countable
  by countable_datatype

definition jarr :: "'d json list \<Rightarrow> 'd json" where
  "jarr es = (if es = [] then JNull else JArray es)"

definition jobj :: "(string \<times> 'd json) list \<Rightarrow> 'd json" where
  "jobj m = (if m = [] then JNull else JObject m)"

definition jmember :: "(string \<times> 'd json) list \<Rightarrow> string \<Rightarrow> 'd json" where
  "jmember m k = (case map_of m k of None \<Rightarrow> JNull | Some x \<Rightarrow> x)"

text \<open>Scalars: a number is read back through the conversion whose range holds it.\<close>

definition json_scalars :: "('j, 'd) jsoncpp \<Rightarrow> ('j \<Rightarrow> 'd json) \<Rightarrow> ('d \<Rightarrow> bool) \<Rightarrow> bool" where
  "json_scalars J view flt \<longleftrightarrow>
     view (jv_null J) = JNull \<and>
     (\<forall>i. in_range (- (2 ^ 63)) (2 ^ 63) i \<longrightarrow> view (jv_int J i) = JInt i) \<and>
     (\<forall>i. in_range 0 (2 ^ 64) i \<longrightarrow> view (jv_uint J i) = JInt i) \<and>
     (\<forall>d. flt d \<longrightarrow> view (jv_float J d) = JReal d) \<and>
     (\<forall>d. view (jv_double J d) = JReal d) \<and>
     (\<forall>b. view (jv_bool J b) = JBool b) \<and>
     (\<forall>str. view (jv_string J str) = JString str) \<and>
     (\<forall>j i. view j = JInt i \<longrightarrow> isIntegral J j \<and>
        (in_range (- (2 ^ 31)) (2 ^ 31) i \<longrightarrow> asInt J j = Some i) \<and>
        (in_range (- (2 ^ 63)) (2 ^ 63) i \<longrightarrow> asInt64 J j = Some i) \<and>
        (in_range 0 (2 ^ 32) i \<longrightarrow> asUInt J j = Some i) \<and>
        (in_range 0 (2 ^ 64) i \<longrightarrow> asUInt64 J j = Some i)) \<and>
     (\<forall>j d. view j = JReal d \<longrightarrow> isDouble J j \<and> asDouble J j = Some d \<and> (flt d \<longrightarrow> asFloat J j = Some d)) \<and>
     (\<forall>j b. view j = JBool b \<longrightarrow> isBool J j \<and> asBool J j = Some b) \<and>
     (\<forall>j str. view j = JString str \<longrightarrow> isString J j \<and> asString J j = Some str)"

text \<open>Arrays: a null value becomes an array when it is indexed or appended to.\<close>

definition json_arrays :: "('j, 'd) jsoncpp \<Rightarrow> ('j \<Rightarrow> 'd json) \<Rightarrow> bool" where
  "json_arrays J view \<longleftrightarrow>
     (\<forall>j. isArray J j \<longleftrightarrow> (\<exists>es. view j = JArray es)) \<and>
     (\<forall>j es. view j = JArray es \<longrightarrow> jv_size J j = length es) \<and>
     (\<forall>j es i. view j = JArray es \<longrightarrow> i < length es \<longrightarrow> (\<exists>e. index_get J i j = Some e \<and> view e = es ! i)) \<and>
     (\<forall>j es. view j = jarr es \<longrightarrow> (\<exists>e. index_ref J (length es) j = Some e \<and> view e = JNull)) \<and>
     (\<forall>j es e. view j = jarr es \<longrightarrow> (\<exists>j'. index_put J (length es) e j = Some j' \<and> view j' = JArray (es @ [view e]))) \<and>
     (\<forall>j es e. view j = jarr es \<longrightarrow> (\<exists>j'. jv_append J e j = Some j' \<and> view j' = JArray (es @ [view e])))"

text \<open>Objects: likewise, with a null value where a member is missing.\<close>

definition json_objects :: "('j, 'd) jsoncpp \<Rightarrow> ('j \<Rightarrow> 'd json) \<Rightarrow> bool" where
  "json_objects J view \<longleftrightarrow>
     (\<forall>j. isObject J j \<longleftrightarrow> (\<exists>m. view j = JObject m)) \<and>
     (\<forall>j m. view j = JObject m \<longrightarrow>
        (\<exists>ns. getMemberNames J j = Some ns \<and> distinct ns \<and> set ns = fst ` set m)) \<and>
     (\<forall>j m k. view j = jobj m \<longrightarrow> (\<exists>e. member_get J k j = Some e \<and> view e = jmember m k)) \<and>
     (\<forall>j m k. view j = jobj m \<longrightarrow> (\<exists>e. member_ref J k j = Some e \<and> view e = jmember m k)) \<and>
     (\<forall>j m k e. view j = jobj m \<longrightarrow>
        (\<exists>j'. member_put J k e j = Some j' \<and> view j' = JObject (smap_set k (view e) m)))"

definition jsoncpp_laws :: "('j, 'd) jsoncpp \<Rightarrow> ('j \<Rightarrow> 'd json) \<Rightarrow> ('d \<Rightarrow> bool) \<Rightarrow> bool" where
  "jsoncpp_laws J view flt \<longleftrightarrow> json_scalars J view flt \<and> json_arrays J view \<and> json_objects J view"

text \<open>The result types of the conversions.\<close>

definition jsoncpp_typed :: "('j, 'd) jsoncpp \<Rightarrow> ('d \<Rightarrow> bool) \<Rightarrow> bool" where
  "jsoncpp_typed J flt \<longleftrightarrow>
     (\<forall>j i. asInt J j = Some i \<longrightarrow> in_range (- (2 ^ 31)) (2 ^ 31) i) \<and>
     (\<forall>j i. asInt64 J j = Some i \<longrightarrow> in_range (- (2 ^ 63)) (2 ^ 63) i) \<and>
     (\<forall>j i. asUInt J j = Some i \<longrightarrow> in_range 0 (2 ^ 32) i) \<and>
     (\<forall>j i. asUInt64 J j = Some i \<longrightarrow> in_range 0 (2 ^ 64) i) \<and>
     (\<forall>j d. asFloat J j = Some d \<longrightarrow> flt d)"

text \<open>The reader accepts what a writer makes of a value that stands for \<open>x\<close>.\<close>

definition reads_back :: "('j, 'd) jsoncpp \<Rightarrow> ('j \<Rightarrow> 'd json) \<Rightarrow> ('j \<Rightarrow> string) \<Rightarrow> 'd json \<Rightarrow> bool" where
  "reads_back J view wr x \<longleftrightarrow> (\<forall>j. view j = x \<longrightarrow> (\<exists>j'. reader_parse J (wr j) = Some j' \<and> view j' = x))"

subsection \<open>The JSON value of a C++ value\<close>

definition scalar_json :: "'d cval \<Rightarrow> 'd json" where
  "scalar_json v =
     (case v of VInt i \<Rightarrow> JInt i | VReal d \<Rightarrow> JReal d | VBool b \<Rightarrow> JBool b | VString str \<Rightarrow> JString str | _ \<Rightarrow> JNull)"

primrec json_of :: "ctype \<Rightarrow> 'd cval \<Rightarrow> 'd json" where
  "json_of TInt32 = scalar_json"
| "json_of TInt64 = scalar_json"
| "json_of TUInt32 = scalar_json"
| "json_of TUInt64 = scalar_json"
| "json_of TFloat = scalar_json"
| "json_of TDouble = scalar_json"
| "json_of TBool = scalar_json"
| "json_of TString = scalar_json"
| "json_of TEnum = scalar_json"
| "json_of (TVector t) = (\<lambda>v. case v of VList vs \<Rightarrow> jarr (map (json_of t) vs) | _ \<Rightarrow> JNull)"
| "json_of (TMap k t) =
     (\<lambda>v. case v of VMap kvs \<Rightarrow> jobj (put_list smap_set (map (map_prod member_name (json_of t)) kvs) []) | _ \<Rightarrow> JNull)"
| "json_of (TUnorderedMap k t) =
     (\<lambda>v. case v of VMap kvs \<Rightarrow> jobj (put_list smap_set (map (map_prod member_name (json_of t)) kvs) []) | _ \<Rightarrow> JNull)"
| "json_of (TSet t) = (\<lambda>v. case v of VList vs \<Rightarrow> jarr (map (json_of t) vs) | _ \<Rightarrow> JNull)"
| "json_of (TUnorderedSet t) = (\<lambda>v. case v of VList vs \<Rightarrow> jarr (map (json_of t) vs) | _ \<Rightarrow> JNull)"
| "json_of (TPointer t) =
     (\<lambda>v. case v of VPtr (Some x) \<Rightarrow> json_of t x | VPtr None \<Rightarrow> JString kNullptrJsonStr | _ \<Rightarrow> JNull)"
| "json_of (TClass fs) =
     (\<lambda>v. case v of
        VClass vs \<Rightarrow> jobj (put_list smap_set (map2 (\<lambda>(n, f) x. (n, f x)) (map (map_prod id json_of) fs) vs) [])
      | _ \<Rightarrow> JNull)"
| "json_of TUncaught = (\<lambda>v. JNull)"

text \<open>Types with an overload for every part, and distinct field names.\<close>

primrec marshallable :: "ctype \<Rightarrow> bool" where
  "marshallable TInt32 = True"
| "marshallable TInt64 = True"
| "marshallable TUInt32 = True"
| "marshallable TUInt64 = True"
| "marshallable TFloat = True"
| "marshallable TDouble = True"
| "marshallable TBool = True"
| "marshallable TString = True"
| "marshallable TEnum = True"
| "marshallable (TVector t) = marshallable t"
| "marshallable (TMap k t) = marshallable t"
| "marshallable (TUnorderedMap k t) = marshallable t"
| "marshallable (TSet t) = marshallable t"
| "marshallable (TUnorderedSet t) = marshallable t"
| "marshallable (TPointer t) = marshallable t"
| "marshallable (TClass fs) = (distinct (map fst fs) \<and> list_all snd (map (map_prod id marshallable) fs))"
| "marshallable TUncaught = False"

text \<open>
  The values that survive: no empty container, no pointer, no \<open>std::map<uint32_t, T>\<close>; sets
  iterate in order, or without repetition.
\<close>

primrec readable :: "'d cxx_env \<Rightarrow> ctype \<Rightarrow> 'd cval \<Rightarrow> bool" where
  "readable E TInt32 = (\<lambda>v. True)"
| "readable E TInt64 = (\<lambda>v. True)"
| "readable E TUInt32 = (\<lambda>v. True)"
| "readable E TUInt64 = (\<lambda>v. True)"
| "readable E TFloat = (\<lambda>v. True)"
| "readable E TDouble = (\<lambda>v. True)"
| "readable E TBool = (\<lambda>v. True)"
| "readable E TString = (\<lambda>v. True)"
| "readable E TEnum = (\<lambda>v. True)"
| "readable E (TVector t) = (\<lambda>v. \<exists>vs. v = VList vs \<and> vs \<noteq> [] \<and> (\<forall>x \<in> set vs. readable E t x))"
| "readable E (TMap k t) =
     (\<lambda>v. k \<noteq> KUInt32 \<and> (\<exists>kvs. v = VMap kvs \<and> kvs \<noteq> [] \<and> (\<forall>x \<in> snd ` set kvs. readable E t x)))"
| "readable E (TUnorderedMap k t) =
     (\<lambda>v. \<exists>kvs. v = VMap kvs \<and> kvs \<noteq> [] \<and> (\<forall>x \<in> snd ` set kvs. readable E t x))"
| "readable E (TSet t) =
     (\<lambda>v. \<exists>vs. v = VList vs \<and> vs \<noteq> [] \<and> sorted_wrt (\<lambda>a b. cv_less E a b \<and> \<not> cv_less E b a) vs \<and>
        (\<forall>x \<in> set vs. readable E t x))"
| "readable E (TUnorderedSet t) =
     (\<lambda>v. \<exists>vs. v = VList vs \<and> vs \<noteq> [] \<and> distinct vs \<and> (\<forall>x \<in> set vs. readable E t x))"
| "readable E (TPointer t) = (\<lambda>v. False)"
| "readable E (TClass fs) =
     (\<lambda>v. \<exists>vs. v = VClass vs \<and> list_all2 snd (map (map_prod id (readable E)) fs) vs)"
| "readable E TUncaught = (\<lambda>v. False)"

subsection \<open>Maps with ordered keys\<close>

lemma set_mset_entry: "set (map fst (mset_entry k v m)) = insert k (set (map fst m))"
  by (induction k v m rule: mset_entry.induct) auto

lemma omap_ok_Nil [simp]: "omap_ok []"
  by (simp add: omap_ok_def)

lemma omap_ok_mset_entry [simp]: "omap_ok m \<Longrightarrow> omap_ok (mset_entry k v m)"
proof (induction k v m rule: mset_entry.induct)
  case (2 k v k' v' m)
  then show ?case using set_mset_entry [of k v m] by (auto simp: omap_ok_def)
qed (simp add: omap_ok_def)

lemma map_of_mset_entry [simp]: "omap_ok m \<Longrightarrow> map_of (mset_entry k v m) = (map_of m)(k \<mapsto> v)"
proof (induction k v m rule: mset_entry.induct)
  case (2 k v k' v' m)
  then show ?case by (auto simp: omap_ok_def fun_upd_twist)
qed simp

lemma mset_entry_values: "(k', v') \<in> set (mset_entry k v m) \<Longrightarrow> (k', v') = (k, v) \<or> (k', v') \<in> set m"
  by (induction k v m rule: mset_entry.induct) (auto split: if_splits)

lemma omap_ok_distinct: "omap_ok m \<Longrightarrow> distinct (map fst m)"
  by (simp add: omap_ok_def strict_sorted_iff)

lemma omap_ok_unique:
  assumes ok: "omap_ok m" "omap_ok m'" and eq: "map_of m = map_of m'"
  shows "m = m'"
proof -
  have d: "distinct (map fst m)" "distinct (map fst m')" using ok by (simp_all add: omap_ok_distinct)
  have s: "set m = set m'" using map_of_eqI d eq by (metis map_of_eq_Some_iff subrelI subset_antisym)
  have inj: "inj_on fst (set m \<union> set m')" using d(1) s by (simp add: distinct_map)
  show ?thesis using map_sorted_distinct_set_unique [OF inj] ok d s by (simp add: omap_ok_def strict_sorted_iff)
qed

interpretation omap: entry_map mset_entry omap_ok
proof
  show "fst ` set (mset_entry k v m) = insert k (fst ` set m)" for k v and m :: "(mkey \<times> 'a) list"
    using set_mset_entry [of k v m] by simp
qed simp_all

text \<open>A map filled from any enumeration of its entries is the map.\<close>

lemma put_list_same:
  assumes m: "omap_ok m" and d: "distinct (map fst ps)" and eq: "set ps = set m"
  shows "put_list mset_entry ps [] = m"
proof (rule omap_ok_unique [OF omap.put_list_ok [OF omap_ok_Nil] m])
  have "map_of (put_list mset_entry ps []) k = map_of m k" for k
  proof (cases "k \<in> fst ` set ps")
    case True
    then obtain x where x: "(k, x) \<in> set ps" by auto
    then have "map_of m k = Some x" using eq omap_ok_distinct [OF m] by simp
    then show ?thesis using omap.put_list_entry [OF omap_ok_Nil d x] by simp
  next
    case False
    then show ?thesis using omap.put_list_other [OF omap_ok_Nil False] eq by (simp add: map_of_eq_None_iff [THEN iffD2])
  qed
  then show "map_of (put_list mset_entry ps []) = map_of m" by blast
qed

subsection \<open>Keys and their names\<close>

lemma nat_str_hd: "is_digit (hd (nat_str n))"
  using nat_str_digits hd_in_set nat_str_not_Nil by blast

lemma is_digit_not_space: "is_digit c \<Longrightarrow> \<not> is_space c \<and> c \<noteq> CHR ''-'' \<and> c \<noteq> CHR ''+''"
  by (auto simp: is_digit_def is_space_def)

lemma takeWhile_nat_str: "takeWhile is_digit (nat_str n) = nat_str n"
  using nat_str_digits by (simp add: takeWhile_eq_all_conv)

lemma parse_nat_str: "parse_int (nat_str n) = Some (False, n)"
proof -
  have "dropWhile is_space (nat_str n) = nat_str n"
    using nat_str_hd [of n] is_digit_not_space by (cases "nat_str n") auto
  then show ?thesis using is_digit_not_space [OF nat_str_hd [of n]]
    by (simp add: parse_int_def takeWhile_nat_str digits_val_nat_str)
qed

lemma parse_neg_str: "parse_int (CHR ''-'' # nat_str n) = Some (True, n)"
  by (simp add: parse_int_def is_space_def takeWhile_nat_str digits_val_nat_str)

lemma stoi_range_int_str: "- b \<le> i \<Longrightarrow> i < b \<Longrightarrow> stoi_range b (int_str i) = Some i"
  by (simp add: stoi_range_def int_str_def parse_nat_str parse_neg_str)

lemma stoull_int_str: "0 \<le> i \<Longrightarrow> i < 2 ^ 64 \<Longrightarrow> stoull (int_str i) = Some i"
  by (simp add: stoull_def int_str_def parse_nat_str)

lemma parse_key_name: "key_typed kt k \<Longrightarrow> parse_key kt (member_name k) = Some k"
  by (cases "(kt, k)" rule: key_typed.cases) (simp_all add: in_range_def stoi_range_int_str stoull_int_str)

lemma parse_key_typed: "parse_key kt str = Some k \<Longrightarrow> key_typed kt k"
  by (cases kt) (auto simp: in_range_def stoi_range_def stoull_def Let_def split: option.splits if_splits)

lemma member_name_inj: "key_typed kt k \<Longrightarrow> key_typed kt k' \<Longrightarrow> member_name k = member_name k' \<Longrightarrow> k = k'"
  using parse_key_name by (metis option.inject)

subsection \<open>What is read has the type of the target\<close>

lemma array_loop_typed:
  assumes "\<And>e ok v. u e = Some (ok, v) \<Longrightarrow> P v"
    and "\<And>v vs. set (add v vs) \<subseteq> insert v (set vs)"
  shows "array_loop J u add root is st = Some st' \<Longrightarrow> \<forall>v \<in> set (snd st). P v \<Longrightarrow> \<forall>v \<in> set (snd st'). P v"
proof (induction "is" arbitrary: st)
  case (Cons i "is")
  from Cons.prems(1) obtain e ok tmp where *: "u e = Some (ok, tmp)"
    "array_loop J u add root is (if \<not> ok then False else fst st, add tmp (snd st)) = Some st'"
    by (auto split: option.splits)
  have "\<forall>v \<in> set (add tmp (snd st)). P v"
    using assms(1) [OF *(1)] assms(2) [of tmp "snd st"] Cons.prems(2) by auto
  then show ?case using Cons.IH [OF *(2)] by simp
qed simp

lemma array_typed:
  assumes "\<And>e old ok v. u e old = Some (ok, v) \<Longrightarrow> P old \<Longrightarrow> P v" "P tmp"
    and "\<And>v vs. set (add v vs) \<subseteq> insert v (set vs)"
    and "(if \<not> isArray J root then Some (False, obj)
      else map_option (map_prod id VList) (array_loop J (\<lambda>e. u e tmp) add root ns (True, []))) = Some (ok, v)"
    and "\<exists>vs. obj = VList vs \<and> (\<forall>x \<in> set vs. P x)"
  shows "\<exists>vs. v = VList vs \<and> (\<forall>x \<in> set vs. P x)"
proof (cases "isArray J root")
  case True
  with assms(4) obtain vs where "array_loop J (\<lambda>e. u e tmp) add root ns (True, []) = Some (ok, vs)" "v = VList vs"
    by auto
  then show ?thesis using array_loop_typed [of "\<lambda>e. u e tmp" P add, OF _ assms(3)] assms(1,2) by fastforce
next
  case False
  then show ?thesis using assms(4,5) by simp
qed

lemma set_insert_subset: "set (set_insert lt v ws) \<subseteq> insert v (set ws)"
  by (induction lt v ws rule: set_insert.induct) auto

lemma append_new_subset: "set (if v \<in> set vs then vs else vs @ [v]) \<subseteq> insert v (set vs)"
  by auto

lemma members_loop_typed:
  assumes u: "\<And>e old ok v. u e old = Some (ok, v) \<Longrightarrow> P old \<Longrightarrow> P v"
    and key: "\<And>n k. key n = Some k \<Longrightarrow> Q k" and new: "P new"
  shows "members_loop J key new u root ns st = Some st' \<Longrightarrow>
    omap_ok (snd st) \<and> (\<forall>(k, v) \<in> set (snd st). Q k \<and> P v) \<Longrightarrow>
    omap_ok (snd st') \<and> (\<forall>(k, v) \<in> set (snd st'). Q k \<and> P v)"
proof (induction ns arbitrary: st)
  case (Cons n ns)
  let ?old = "\<lambda>k. case map_of (snd st) k of None \<Rightarrow> new | Some v \<Rightarrow> v"
  obtain e k ok v where *: "key n = Some k" "u e (?old k) = Some (ok, v)"
    "members_loop J key new u root ns (if \<not> ok then False else fst st, mset_entry k v (snd st)) = Some st'"
  proof (cases "(member_get J n root, key n)")
    case (Pair a b)
    then show ?thesis using Cons.prems(1) that by (cases a; cases b) (auto split: option.splits)
  qed
  have "P (?old k)" using new Cons.prems(2) by (auto split: option.split dest: map_of_SomeD)
  then have "P v" using u [OF *(2)] by blast
  then have "\<forall>(k', v') \<in> set (mset_entry k v (snd st)). Q k' \<and> P v'"
    using key [OF *(1)] Cons.prems(2) by (auto dest!: mset_entry_values)
  then show ?case using Cons.IH [OF *(3)] Cons.prems(2) by simp
qed simp

lemma unmarshal_members_typed:
  assumes "\<And>e old ok v. u e old = Some (ok, v) \<Longrightarrow> P old \<Longrightarrow> P v" "P new"
    and "unmarshal_members J kt new u root obj = Some (ok, v)"
    and "\<exists>kvs. obj = VMap kvs \<and> omap_ok kvs \<and> (\<forall>(x, y) \<in> set kvs. key_typed kt x \<and> P y)"
  shows "\<exists>kvs. v = VMap kvs \<and> omap_ok kvs \<and> (\<forall>(x, y) \<in> set kvs. key_typed kt x \<and> P y)"
proof (cases "isObject J root")
  case True
  with assms(3) obtain ns m where "members_loop J (parse_key kt) new u root ns (True, []) = Some (ok, m)" "v = VMap m"
    by (auto simp: unmarshal_members_def split: option.splits)
  then show ?thesis using members_loop_typed [of u P "parse_key kt" "key_typed kt", OF assms(1) parse_key_typed assms(2)]
    by fastforce
next
  case False
  then show ?thesis using assms(3,4) by (simp add: unmarshal_members_def)
qed

lemma unmarshal_fields_typed:
  assumes "list_all2 (\<lambda>(n, u) (n', P). \<forall>e old ok v. u e old = Some (ok, v) \<longrightarrow> P old \<longrightarrow> P v) us ps"
  shows "unmarshal_fields J us root vs = Some (ok, vs') \<Longrightarrow> list_all2 snd ps vs \<Longrightarrow> list_all2 snd ps vs'"
  using assms
proof (induction us arbitrary: ps vs vs' ok)
  case Nil
  then show ?case by (cases vs) auto
next
  case (Cons a us)
  obtain n u where a: "a = (n, u)" by (cases a)
  from Cons.prems a obtain n' P ps' x xs where ps: "ps = (n', P) # ps'" "vs = x # xs" "P x" "list_all2 snd ps' xs"
    "\<forall>e old ok v. u e old = Some (ok, v) \<longrightarrow> P old \<longrightarrow> P v"
    "list_all2 (\<lambda>(n, u) (n', P). \<forall>e old ok v. u e old = Some (ok, v) \<longrightarrow> P old \<longrightarrow> P v) us ps'"
    by (auto simp: list_all2_Cons1)
  from Cons.prems(1) a ps(2) obtain e k x' r xs' where *: "u e x = Some (k, x')"
    "unmarshal_fields J us root xs = Some (r, xs')" "vs' = x' # xs'"
    by (auto split: option.splits)
  show ?case using Cons.IH [OF *(2) ps(4,6)] ps(1,3,5) * by auto
qed

lemma Unmarshal_typed:
  assumes J: "jsoncpp_typed J flt" and E: "env_typed flt E"
  shows "Unmarshal J E t root obj = Some (ok, v) \<Longrightarrow> typed flt t obj \<Longrightarrow> typed flt t v"
proof (induction t arbitrary: root obj ok v)
  case (TVector t)
  show ?case using array_typed [of "Unmarshal J E t" "typed flt t" "cv_local E t" "\<lambda>v vs. vs @ [v]", OF TVector.IH] TVector.prems E
    by (simp add: Unmarshal_vector_def env_typed_def)
next
  case (TSet t)
  show ?case using array_typed [of "Unmarshal J E t" "typed flt t" "cv_local E t", OF TSet.IH _ set_insert_subset] TSet.prems E
    by (simp add: Unmarshal_set_def env_typed_def)
next
  case (TUnorderedSet t)
  show ?case using array_typed [of "Unmarshal J E t" "typed flt t" "cv_local E t"
      "\<lambda>v vs. if v \<in> set vs then vs else vs @ [v]", OF TUnorderedSet.IH _ append_new_subset] TUnorderedSet.prems E
    by (simp add: Unmarshal_unordered_set_def env_typed_def)
next
  case (TMap k t)
  then show ?case using unmarshal_members_typed [of "Unmarshal J E t" "typed flt t" "cv_element E t" J k root obj ok v, OF TMap.IH] E
    by (simp add: Unmarshal_map_def env_typed_def split: if_splits)
next
  case (TUnorderedMap k t)
  then show ?case using unmarshal_members_typed [of "Unmarshal J E t" "typed flt t" "cv_element E t" J k root obj ok v, OF TUnorderedMap.IH] E
    by (simp add: Unmarshal_unordered_map_def env_typed_def)
next
  case (TPointer t)
  then show ?case by (auto simp: Unmarshal_pointer_def split: if_splits option.splits)
next
  case (TClass fs)
  from TClass.prems obtain vs vs' where *: "obj = VClass vs" "v = VClass vs'"
    "unmarshal_fields J (map (map_prod id (Unmarshal J E)) fs) root vs = Some (ok, vs')"
    "list_all2 snd (map (map_prod id (typed flt)) fs) vs"
    by (auto simp: Unmarshal_class_def)
  have "list_all2 (\<lambda>(n, u) (n', P). \<forall>e old ok v. u e old = Some (ok, v) \<longrightarrow> P old \<longrightarrow> P v)
      (map (map_prod id (Unmarshal J E)) fs) (map (map_prod id (typed flt)) fs)"
    using TClass.IH by (auto simp: list_all2_map1 list_all2_map2 intro!: list.rel_refl_strong)
  from unmarshal_fields_typed [OF this *(3,4)] *(2) show ?case by simp
qed (use J in \<open>auto simp: jsoncpp_typed_def Unmarshal_int32_def Unmarshal_int64_def Unmarshal_uint32_def Unmarshal_uint64_def
    Unmarshal_float_def Unmarshal_double_def Unmarshal_bool_def Unmarshal_string_def Unmarshal_enum_def Unmarshal_uncaught_def
    split: if_splits\<close>)

subsection \<open>Marshalling produces the JSON value\<close>

lemma json_scalarsD:
  assumes "json_scalars J view flt"
  shows "view (jv_null J) = JNull"
    "in_range (- (2 ^ 63)) (2 ^ 63) i \<Longrightarrow> view (jv_int J i) = JInt i"
    "in_range 0 (2 ^ 64) i \<Longrightarrow> view (jv_uint J i) = JInt i"
    "flt d \<Longrightarrow> view (jv_float J d) = JReal d"
    "view (jv_double J d) = JReal d"
    "view (jv_bool J b) = JBool b"
    "view (jv_string J str) = JString str"
  using assms by (simp_all add: json_scalars_def)

lemma json_scalars_readD:
  assumes "json_scalars J view flt"
  shows "view j = JInt i \<Longrightarrow> isIntegral J j"
    "view j = JInt i \<Longrightarrow> in_range (- (2 ^ 31)) (2 ^ 31) i \<Longrightarrow> asInt J j = Some i"
    "view j = JInt i \<Longrightarrow> in_range (- (2 ^ 63)) (2 ^ 63) i \<Longrightarrow> asInt64 J j = Some i"
    "view j = JInt i \<Longrightarrow> in_range 0 (2 ^ 32) i \<Longrightarrow> asUInt J j = Some i"
    "view j = JInt i \<Longrightarrow> in_range 0 (2 ^ 64) i \<Longrightarrow> asUInt64 J j = Some i"
    "view j = JReal d \<Longrightarrow> isDouble J j" "view j = JReal d \<Longrightarrow> asDouble J j = Some d"
    "view j = JReal d \<Longrightarrow> flt d \<Longrightarrow> asFloat J j = Some d"
    "view j = JBool b \<Longrightarrow> isBool J j" "view j = JBool b \<Longrightarrow> asBool J j = Some b"
    "view j = JString str \<Longrightarrow> isString J j" "view j = JString str \<Longrightarrow> asString J j = Some str"
  using assms by (simp_all add: json_scalars_def)

lemma json_arraysD:
  assumes "json_arrays J view"
  shows "isArray J j \<longleftrightarrow> (\<exists>es. view j = JArray es)"
    "view j = JArray es \<Longrightarrow> jv_size J j = length es"
    "view j = JArray es \<Longrightarrow> i < length es \<Longrightarrow> \<exists>e. index_get J i j = Some e \<and> view e = es ! i"
    "view j = jarr es \<Longrightarrow> \<exists>e. index_ref J (length es) j = Some e \<and> view e = JNull"
    "view j = jarr es \<Longrightarrow> \<exists>j'. index_put J (length es) e j = Some j' \<and> view j' = JArray (es @ [view e])"
    "view j = jarr es \<Longrightarrow> \<exists>j'. jv_append J e j = Some j' \<and> view j' = JArray (es @ [view e])"
  using assms unfolding json_arrays_def by blast+

lemma json_objectsD:
  assumes "json_objects J view"
  shows "isObject J j \<longleftrightarrow> (\<exists>m. view j = JObject m)"
    "view j = JObject m \<Longrightarrow> \<exists>ns. getMemberNames J j = Some ns \<and> distinct ns \<and> set ns = fst ` set m"
    "view j = jobj m \<Longrightarrow> \<exists>e. member_get J k j = Some e \<and> view e = jmember m k"
    "view j = jobj m \<Longrightarrow> \<exists>e. member_ref J k j = Some e \<and> view e = jmember m k"
    "view j = jobj m \<Longrightarrow> \<exists>j'. member_put J k e j = Some j' \<and> view j' = JObject (smap_set k (view e) m)"
  using assms unfolding json_objects_def by blast+

lemma jarr_Nil [simp]: "jarr [] = JNull" and jarr_snoc: "jarr (es @ [x]) = JArray (es @ [x])"
  by (simp_all add: jarr_def)

lemma smap_set_not_Nil [simp]: "smap_set k x m \<noteq> []"
  by (cases "(k, x, m)" rule: smap_set.cases) auto

lemma jobj_Nil [simp]: "jobj [] = JNull" and jobj_set: "jobj (smap_set k x m) = JObject (smap_set k x m)"
  by (simp_all add: jobj_def)

lemma vector_loop_view:
  assumes A: "json_arrays J view"
  shows "(\<And>v root. v \<in> set vs \<Longrightarrow> view root = JNull \<Longrightarrow> \<exists>r. m v root = Some (True, r) \<and> view r = f v) \<Longrightarrow>
    view root = jarr es \<Longrightarrow>
    \<exists>r. vector_loop J m (length es) vs (True, root) = Some (True, r) \<and> view r = jarr (es @ map f vs)"
proof (induction vs arbitrary: root es)
  case (Cons v vs)
  obtain e where e: "index_ref J (length es) root = Some e" "view e = JNull" using json_arraysD(4) [OF A Cons.prems(2)] by blast
  obtain r where r: "m v e = Some (True, r)" "view r = f v" using Cons.prems(1) e(2) by fastforce
  obtain j where j: "index_put J (length es) r root = Some j" "view j = jarr (es @ [f v])"
    using json_arraysD(5) [OF A Cons.prems(2), of r] r(2) by (auto simp: jarr_snoc)
  show ?case using Cons.IH [OF Cons.prems(1) j(2)] e(1) r(1) j(1) by (simp add: marshal_at_def)
qed simp

lemma set_loop_view:
  assumes A: "json_arrays J view" and null: "view (jv_null J) = JNull"
  shows "(\<And>v root. v \<in> set vs \<Longrightarrow> view root = JNull \<Longrightarrow> \<exists>r. m v root = Some (True, r) \<and> view r = f v) \<Longrightarrow>
    view root = jarr es \<Longrightarrow> \<exists>r. set_loop J m vs (True, root) = Some (True, r) \<and> view r = jarr (es @ map f vs)"
proof (induction vs arbitrary: root es)
  case (Cons v vs)
  obtain r where r: "m v (jv_null J) = Some (True, r)" "view r = f v" using Cons.prems(1) null by fastforce
  obtain j where j: "jv_append J r root = Some j" "view j = jarr (es @ [f v])"
    using json_arraysD(6) [OF A Cons.prems(2), of r] r(2) by (auto simp: jarr_snoc)
  show ?case using Cons.IH [OF Cons.prems(1) j(2)] r(1) j(1) by simp
qed simp

text \<open>One member that is not there yet.\<close>

lemma marshal_member:
  assumes O: "json_objects J view" and root: "view root = jobj m" and k: "k \<notin> fst ` set m"
    and mv: "\<And>root. view root = JNull \<Longrightarrow> \<exists>r. mv root = Some (True, r) \<and> view r = x"
  shows "\<exists>r. marshal_at (member_ref J k) (member_put J k) mv (True, root) = Some (True, r) \<and> view r = jobj (smap_set k x m)"
proof -
  have "map_of m k = None" using k by (simp add: map_of_eq_None_iff)
  then obtain e where e: "member_ref J k root = Some e" "view e = JNull"
    using json_objectsD(4) [OF O root, of k] by (auto simp: jmember_def)
  obtain r where r: "mv e = Some (True, r)" "view r = x" using mv [OF e(2)] by blast
  then show ?thesis using json_objectsD(5) [OF O root, of k r] e(1) by (auto simp: marshal_at_def jobj_set)
qed

lemma map_loop_view:
  assumes O: "json_objects J view"
  shows "(\<And>k v root. (k, v) \<in> set kvs \<Longrightarrow> view root = JNull \<Longrightarrow> \<exists>r. m v root = Some (True, r) \<and> view r = f v) \<Longrightarrow>
    view root = jobj acc \<Longrightarrow> distinct (map (member_name \<circ> fst) kvs) \<Longrightarrow>
    (\<forall>k \<in> fst ` set kvs. member_name k \<notin> fst ` set acc) \<Longrightarrow>
    \<exists>r. map_loop J m kvs (True, root) = Some (True, r) \<and> view r = jobj (put_list smap_set (map (map_prod member_name f) kvs) acc)"
proof (induction kvs arbitrary: root acc)
  case (Cons p kvs)
  obtain k v where p: "p = (k, v)" by (cases p)
  have "member_name k \<notin> fst ` set acc" using Cons.prems(4) p by simp
  from marshal_member [OF O Cons.prems(2) this, of "m v" "f v"] Cons.prems(1) p obtain j where
    j: "marshal_at (member_ref J (member_name k)) (member_put J (member_name k)) (m v) (True, root) = Some (True, j)"
      "view j = jobj (smap_set (member_name k) (f v) acc)" by fastforce
  have "\<forall>k' \<in> fst ` set kvs. member_name k' \<notin> fst ` set (smap_set (member_name k) (f v) acc)"
    using Cons.prems(3,4) p set_smap_set [of "member_name k" "f v" acc] by (auto simp: image_iff)
  from Cons.IH [OF _ j(2) _ this] Cons.prems(3) p have
    "\<exists>r. map_loop J m kvs (True, j) = Some (True, r) \<and>
       view r = jobj (put_list smap_set (map (map_prod member_name f) kvs) (smap_set (member_name k) (f v) acc))"
    using Cons.prems(1) by (metis distinct.simps(2) list.set_intros(2) list.simps(9))
  then show ?case using p j(1) by (simp add: put_list_Cons)
qed simp

lemma fields_loop_view:
  assumes O: "json_objects J view"
  shows "list_all2 (\<lambda>((n, m), (n', f)) v. n' = n \<and> (\<forall>root. view root = JNull \<longrightarrow> (\<exists>r. m v root = Some (True, r) \<and> view r = f v)))
      (zip ms js) vs \<Longrightarrow> length js = length ms \<Longrightarrow> view root = jobj acc \<Longrightarrow>
    distinct (map fst ms) \<Longrightarrow> (\<forall>n \<in> fst ` set ms. n \<notin> fst ` set acc) \<Longrightarrow>
    \<exists>r. fields_loop J ms vs (True, root) = Some (True, r) \<and>
      view r = jobj (put_list smap_set (map2 (\<lambda>(n, f) x. (n, f x)) js vs) acc)"
proof (induction ms arbitrary: js vs root acc)
  case (Cons p ms)
  obtain n m where p: "p = (n, m)" by (cases p)
  from Cons.prems(1,2) p obtain f js' v vs' where *: "js = (n, f) # js'" "vs = v # vs'" "length js' = length ms"
    "\<And>root. view root = JNull \<Longrightarrow> \<exists>r. m v root = Some (True, r) \<and> view r = f v"
    "list_all2 (\<lambda>((n, m), (n', f)) v. n' = n \<and> (\<forall>root. view root = JNull \<longrightarrow> (\<exists>r. m v root = Some (True, r) \<and> view r = f v)))
      (zip ms js') vs'"
    by (cases js) (auto simp: list_all2_Cons1)
  have "n \<notin> fst ` set acc" using Cons.prems(5) p by simp
  from marshal_member [OF O Cons.prems(3) this, of "m v" "f v", OF *(4)] obtain j where
    j: "marshal_at (member_ref J n) (member_put J n) (m v) (True, root) = Some (True, j)"
      "view j = jobj (smap_set n (f v) acc)" by blast
  have "\<forall>n' \<in> fst ` set ms. n' \<notin> fst ` set (smap_set n (f v) acc)"
    using Cons.prems(4,5) p set_smap_set [of n "f v" acc] by (auto simp: image_iff)
  from Cons.IH [OF *(5,3) j(2) _ this] Cons.prems(4) p *(1,2) j(1) show ?case by (simp add: put_list_Cons)
qed simp

lemma in_range_mono: "in_range lo hi i \<Longrightarrow> lo' \<le> lo \<Longrightarrow> hi \<le> hi' \<Longrightarrow> in_range lo' hi' i"
  by (simp add: in_range_def)

lemma member_names_distinct:
  assumes "omap_ok kvs" "\<forall>(k, v) \<in> set kvs. key_typed kt k \<and> P v"
  shows "distinct (map (member_name \<circ> fst) kvs)"
proof -
  have "key_typed kt k" if "k \<in> fst ` set kvs" for k using assms(2) that by auto
  then have "inj_on member_name (fst ` set kvs)" by (intro inj_onI) (rule member_name_inj)
  then have "distinct (map member_name (map fst kvs))"
    unfolding distinct_map [of member_name] using omap_ok_distinct [OF assms(1)] by simp
  then show ?thesis by simp
qed

lemma Marshal_map_view:
  assumes O: "json_objects J view" and root: "view root = JNull"
    and m: "\<And>v root. typed flt t v \<Longrightarrow> view root = JNull \<Longrightarrow> \<exists>r. m v root = Some (True, r) \<and> view r = f v"
    and kvs: "omap_ok kvs" "\<forall>(k, v) \<in> set kvs. key_typed kt k \<and> typed flt t v"
  shows "\<exists>r. map_loop J m kvs (True, root) = Some (True, r) \<and> view r = jobj (put_list smap_set (map (map_prod member_name f) kvs) [])"
proof (rule map_loop_view [OF O _ _ member_names_distinct [OF kvs]])
  show "\<exists>r. m v root = Some (True, r) \<and> view r = f v" if "(k, v) \<in> set kvs" "view root = JNull" for k v root
    using that m kvs(2) by blast
qed (simp_all add: root)

lemma fields_zip:
  "list_all2 snd (map (map_prod id P) fs) vs \<Longrightarrow> (\<And>n t v. (n, t) \<in> set fs \<Longrightarrow> P t v \<Longrightarrow> Q (M t) (F t) v) \<Longrightarrow>
    list_all2 (\<lambda>((n, m), (n', f)) v. n' = n \<and> Q m f v) (zip (map (map_prod id M) fs) (map (map_prod id F) fs)) vs"
proof (induction fs arbitrary: vs)
  case (Cons a fs)
  obtain n t where a: "a = (n, t)" by (cases a)
  from Cons.prems(1) obtain x xs where vs: "vs = x # xs" "P t x" "list_all2 snd (map (map_prod id P) fs) xs"
    by (auto simp: a list_all2_Cons1 id_def)
  have "Q (M t) (F t) x" using Cons.prems(2) [of n t] vs(2) a by simp
  moreover have "list_all2 (\<lambda>((n, m), (n', f)) v. n' = n \<and> Q m f v) (zip (map (map_prod id M) fs) (map (map_prod id F) fs)) xs"
    by (rule Cons.IH [OF vs(3)]) (meson Cons.prems(2) list.set_intros(2))
  ultimately show ?case by (simp add: a vs(1) id_def)
qed simp

lemma Marshal_view:
  assumes L: "jsoncpp_laws J view flt"
  shows "typed flt t v \<Longrightarrow> marshallable t \<Longrightarrow> view root = JNull \<Longrightarrow>
    \<exists>r. Marshal J t v root = Some (True, r) \<and> view r = json_of t v"
proof -
  have S: "json_scalars J view flt" and A: "json_arrays J view" and O: "json_objects J view"
    using L by (simp_all add: jsoncpp_laws_def)
  note null = json_scalarsD(1) [OF S]
  have int: "view (jv_int J i) = JInt i" if "in_range (- (2 ^ 31)) (2 ^ 31) i" for i
    using json_scalarsD(2) [OF S in_range_mono [OF that]] by simp
  have uint: "view (jv_uint J i) = JInt i" if "in_range 0 (2 ^ 32) i" for i
    using json_scalarsD(3) [OF S in_range_mono [OF that]] by simp
  note scalar = scalar_json_def json_scalarsD(4-7) [OF S]
  show "typed flt t v \<Longrightarrow> marshallable t \<Longrightarrow> view root = JNull \<Longrightarrow>
    \<exists>r. Marshal J t v root = Some (True, r) \<and> view r = json_of t v"
  proof (induction t arbitrary: v root)
    case (TVector t)
    from TVector.prems obtain vs where v: "v = VList vs" "\<forall>x \<in> set vs. typed flt t x" by auto
    have "\<exists>r. Marshal J t x root = Some (True, r) \<and> view r = json_of t x" if "x \<in> set vs" "view root = JNull" for x root
      using TVector.IH TVector.prems(2) v(2) that by simp
    from vector_loop_view [of J view vs "Marshal J t" "json_of t" root "[]", OF A this] TVector.prems(3)
    show ?case by (simp add: v(1) Marshal_vector_def)
  next
    case (TSet t)
    from TSet.prems obtain vs where v: "v = VList vs" "\<forall>x \<in> set vs. typed flt t x" by auto
    have "\<exists>r. Marshal J t x root = Some (True, r) \<and> view r = json_of t x" if "x \<in> set vs" "view root = JNull" for x root
      using TSet.IH TSet.prems(2) v(2) that by simp
    from set_loop_view [of J view vs "Marshal J t" "json_of t" root "[]", OF A null this] TSet.prems(3)
    show ?case by (simp add: v(1) Marshal_set_def)
  next
    case (TUnorderedSet t)
    from TUnorderedSet.prems obtain vs where v: "v = VList vs" "\<forall>x \<in> set vs. typed flt t x" by auto
    have "\<exists>r. Marshal J t x root = Some (True, r) \<and> view r = json_of t x" if "x \<in> set vs" "view root = JNull" for x root
      using TUnorderedSet.IH TUnorderedSet.prems(2) v(2) that by simp
    from set_loop_view [of J view vs "Marshal J t" "json_of t" root "[]", OF A null this] TUnorderedSet.prems(3)
    show ?case by (simp add: v(1) Marshal_unordered_set_def)
  next
    case (TMap k t)
    from TMap.prems obtain kvs where v: "v = VMap kvs" "omap_ok kvs" "\<forall>(x, y) \<in> set kvs. key_typed k x \<and> typed flt t y" by auto
    from Marshal_map_view [OF O TMap.prems(3) _ v(2,3), of "Marshal J t" "json_of t"] TMap.IH TMap.prems(2)
    show ?case by (simp add: v(1) Marshal_map_def)
  next
    case (TUnorderedMap k t)
    from TUnorderedMap.prems obtain kvs where v: "v = VMap kvs" "omap_ok kvs" "\<forall>(x, y) \<in> set kvs. key_typed k x \<and> typed flt t y" by auto
    from Marshal_map_view [OF O TUnorderedMap.prems(3) _ v(2,3), of "Marshal J t" "json_of t"] TUnorderedMap.IH TUnorderedMap.prems(2)
    show ?case by (simp add: v(1) Marshal_unordered_map_def)
  next
    case (TPointer t)
    then show ?case by (auto simp: Marshal_pointer_def scalar)
  next
    case (TClass fs)
    from TClass.prems obtain vs where v: "v = VClass vs" "list_all2 snd (map (map_prod id (typed flt)) fs) vs" by auto
    let ?ms = "map (map_prod id (Marshal J)) fs" and ?js = "map (map_prod id json_of) fs"
    have "\<forall>root. view root = JNull \<longrightarrow> (\<exists>r. Marshal J t x root = Some (True, r) \<and> view r = json_of t x)"
      if "(n, t) \<in> set fs" "typed flt t x" for n t x
    proof -
      have "marshallable t" using TClass.prems(2) that(1) by (auto simp: list_all_iff)
      then show ?thesis using TClass.IH [OF that(1), of t] that(2) by simp
    qed
    note * = fields_zip [where P = "typed flt" and M = "Marshal J" and F = json_of and
      Q = "\<lambda>m f x. \<forall>root. view root = JNull \<longrightarrow> (\<exists>r. m x root = Some (True, r) \<and> view r = f x)", OF v(2) this]
    from fields_loop_view [OF O *, where root = root and acc = "[]"] TClass.prems(2,3) show ?case
      by (simp add: v(1) Marshal_class_def comp_def)
  next
    case TInt64
    then show ?case using json_scalarsD(2) [OF S] by (auto simp: scalar Marshal_int64_def)
  next
    case TUInt64
    then show ?case using json_scalarsD(3) [OF S] by (auto simp: scalar Marshal_uint64_def)
  qed (auto simp: scalar int uint Marshal_int32_def Marshal_uint32_def Marshal_enum_def Marshal_float_def
      Marshal_double_def Marshal_bool_def Marshal_string_def)
qed

subsection \<open>Unmarshalling reads it back\<close>

lemma array_loop_reads:
  assumes A: "json_arrays J view" and root: "view root = JArray (map f vs)"
    and u: "\<And>v e. v \<in> set vs \<Longrightarrow> view e = f v \<Longrightarrow> u e = Some (True, v)"
  shows "\<forall>i \<in> set is. i < length vs \<Longrightarrow>
    array_loop J u add root is (True, acc) = Some (True, fold add (map ((!) vs) is) acc)"
proof (induction "is" arbitrary: acc)
  case (Cons i "is")
  then have i: "i < length vs" by simp
  then obtain e where e: "index_get J i root = Some e" "view e = f (vs ! i)"
    using json_arraysD(3) [OF A root, of i] by auto
  then show ?case using u [of "vs ! i" e] i Cons by simp
qed simp

lemma array_reads:
  assumes A: "json_arrays J view" and root: "view root = jarr (map f vs)" and ne: "vs \<noteq> []"
    and u: "\<And>v e. v \<in> set vs \<Longrightarrow> view e = f v \<Longrightarrow> u e tmp = Some (True, v)"
    and add: "fold add vs [] = vs"
  shows "(if \<not> isArray J root then Some (False, obj)
      else map_option (map_prod id VList) (array_loop J (\<lambda>e. u e tmp) add root [0..<jv_size J root] (True, []))) =
    Some (True, VList vs)"
proof -
  have r: "view root = JArray (map f vs)" using root ne by (simp add: jarr_def)
  from array_loop_reads [OF A r, of "\<lambda>e. u e tmp" "[0..<length vs]" add "[]", OF u] add
  have "array_loop J (\<lambda>e. u e tmp) add root [0..<length vs] (True, []) = Some (True, vs)" by (simp add: map_nth)
  then show ?thesis using json_arraysD(1) [OF A, of root] json_arraysD(2) [OF A r] r by simp
qed

lemma fold_snoc: "fold (\<lambda>v vs. vs @ [v]) vs acc = acc @ vs"
  by (induction vs arbitrary: acc) auto

lemma set_insert_last: "\<forall>w \<in> set ws. lt w v \<and> \<not> lt v w \<Longrightarrow> set_insert lt v ws = ws @ [v]"
  by (induction ws) auto

lemma fold_set_insert: "sorted_wrt (\<lambda>a b. lt a b \<and> \<not> lt b a) (acc @ vs) \<Longrightarrow> fold (set_insert lt) vs acc = acc @ vs"
proof (induction vs arbitrary: acc)
  case (Cons v vs)
  have "set_insert lt v acc = acc @ [v]" by (rule set_insert_last) (use Cons.prems in \<open>simp add: sorted_wrt_append\<close>)
  then show ?case using Cons.IH [of "acc @ [v]"] Cons.prems by simp
qed simp

lemma fold_append_new:
  "distinct (acc @ vs) \<Longrightarrow> fold (\<lambda>v vs. if v \<in> set vs then vs else vs @ [v]) vs acc = acc @ vs"
  by (induction vs arbitrary: acc) auto

lemma members_loop_reads:
  assumes new: "P new"
    and u: "\<And>n. n \<in> set ns \<Longrightarrow> key n = Some (kf n) \<and>
      (\<exists>e. member_get J n root = Some e \<and> (\<forall>old. P old \<longrightarrow> u e old = Some (True, vf n)))"
    and "inj_on kf (set ns)" "distinct ns" "omap_ok acc" "\<forall>n \<in> set ns. kf n \<notin> fst ` set acc"
  shows "members_loop J key new u root ns (True, acc) =
    Some (True, put_list mset_entry (map (\<lambda>n. (kf n, vf n)) ns) acc)"
  using assms(2-)
proof (induction ns arbitrary: acc)
  case (Cons n ns)
  obtain e where e: "key n = Some (kf n)" "member_get J n root = Some e" "\<forall>old. P old \<longrightarrow> u e old = Some (True, vf n)"
    using Cons.prems(1) [of n] by auto
  have none: "map_of acc (kf n) = None" using Cons.prems(5) by (simp add: map_of_eq_None_iff)
  have "\<forall>n' \<in> set ns. kf n' \<notin> fst ` set (mset_entry (kf n) (vf n) acc)"
    using Cons.prems(2,3,5) set_mset_entry [of "kf n" "vf n" acc] by (auto simp: inj_on_def)
  then have "members_loop J key new u root ns (True, mset_entry (kf n) (vf n) acc) =
      Some (True, put_list mset_entry (map (\<lambda>n. (kf n, vf n)) ns) (mset_entry (kf n) (vf n) acc))"
    using Cons.prems by (intro Cons.IH) (auto simp: inj_on_def)
  then show ?case using e none new by simp
qed simp

lemma members_read:
  assumes O: "json_objects J view" and root: "view root = jobj (put_list smap_set (map (map_prod member_name f) kvs) [])"
    and ne: "kvs \<noteq> []" and kvs: "omap_ok kvs" "\<forall>(x, y) \<in> set kvs. key_typed kt x \<and> Q y" and new: "P new"
    and u: "\<And>v e old. v \<in> snd ` set kvs \<Longrightarrow> view e = f v \<Longrightarrow> P old \<Longrightarrow> u e old = Some (True, v)"
  shows "unmarshal_members J kt new u root obj = Some (True, VMap kvs)"
proof -
  let ?ps = "map (map_prod member_name f) kvs" and ?kf = "\<lambda>n. the (parse_key kt n)"
  let ?m = "put_list smap_set ?ps []" and ?vf = "\<lambda>n. the (map_of kvs (the (parse_key kt n)))"
  have d: "distinct (map fst ?ps)" using member_names_distinct [OF kvs] by (simp add: comp_def)
  have r: "view root = JObject ?m" using root smap.put_list_not_Nil [of ?ps "[]"] ne by (simp add: jobj_def)
  obtain ns where ns: "getMemberNames J root = Some ns" "distinct ns" "set ns = fst ` set ?m"
    using json_objectsD(2) [OF O r] by blast
  then have names: "set ns = member_name ` fst ` set kvs" by (simp add: smap.keys_put_list image_image)
  have key: "parse_key kt (member_name k) = Some k \<and> (\<exists>v. (k, v) \<in> set kvs \<and> map_of kvs k = Some v)"
    if "k \<in> fst ` set kvs" for k
    using that kvs omap_ok_distinct [OF kvs(1)] by (auto simp: parse_key_name)
  have kf: "?kf ` set ns = fst ` set kvs" unfolding names using key by (force simp: image_image)
  have inj: "inj_on ?kf (set ns)" unfolding names using key by (auto simp: inj_on_def)
  have "members_loop J (parse_key kt) new u root ns (True, []) = Some (True, put_list mset_entry (map (\<lambda>n. (?kf n, ?vf n)) ns) [])"
  proof (rule members_loop_reads [where P = P, OF new])
    fix n assume "n \<in> set ns"
    then obtain k where k: "k \<in> fst ` set kvs" "n = member_name k" using names by blast
    then obtain v where v: "parse_key kt n = Some k" "(k, v) \<in> set kvs" "map_of kvs k = Some v" using key by blast
    have "(member_name k, f v) \<in> set ?ps" using v(2) by force
    then have "jmember ?m n = f v" using smap.put_list_entry [OF smap_ok_Nil d] k(2) by (simp add: jmember_def)
    then obtain e where e: "member_get J n root = Some e" "view e = f v" using json_objectsD(3) [OF O root, of n] by auto
    have "u e old = Some (True, ?vf n)" if "P old" for old using u [OF _ e(2) that] v by force
    then show "parse_key kt n = Some (?kf n) \<and>
        (\<exists>e. member_get J n root = Some e \<and> (\<forall>old. P old \<longrightarrow> u e old = Some (True, ?vf n)))"
      using e(1) v(1) by simp
  qed (simp_all add: inj ns(2))
  moreover have "put_list mset_entry (map (\<lambda>n. (?kf n, ?vf n)) ns) [] = kvs"
  proof (rule put_list_same [OF kvs(1)])
    show "distinct (map fst (map (\<lambda>n. (?kf n, ?vf n)) ns))" using ns(2) inj by (simp add: comp_def distinct_map)
    have "set (map (\<lambda>n. (?kf n, ?vf n)) ns) = (\<lambda>k. (k, the (map_of kvs k))) ` fst ` set kvs"
      unfolding set_map kf [symmetric] by (simp add: image_image)
    also have "\<dots> = set kvs" using omap_ok_distinct [OF kvs(1)] by (force simp: image_iff)
    finally show "set (map (\<lambda>n. (?kf n, ?vf n)) ns) = set kvs" .
  qed
  ultimately show ?thesis using json_objectsD(1) [OF O, of root] r ns(1) by (simp add: unmarshal_members_def)
qed

lemma fields_read:
  assumes "\<And>n. \<exists>e. member_get J n root = Some e \<and> view e = jmember m n"
  shows "list_all2 (\<lambda>((n, u), (n', f)) (v, old). n' = n \<and> jmember m n = f v \<and>
      (\<forall>e. view e = f v \<longrightarrow> u e old = Some (True, v))) (zip us js) (zip vs olds) \<Longrightarrow>
    length js = length us \<Longrightarrow> length vs = length us \<Longrightarrow> length olds = length us \<Longrightarrow>
    unmarshal_fields J us root olds = Some (True, vs)"
proof (induction us arbitrary: js vs olds)
  case (Cons p us)
  obtain n u where p: "p = (n, u)" by (cases p)
  from Cons.prems obtain f js' v vs' old olds' where *: "js = (n, f) # js'" "vs = v # vs'" "olds = old # olds'"
    "jmember m n = f v" "\<forall>e. view e = f v \<longrightarrow> u e old = Some (True, v)"
    by (cases js; cases vs; cases olds) (auto simp: p)
  obtain e where "member_get J n root = Some e" "view e = f v" using assms [of n] *(4) by auto
  then show ?case using Cons.IH [of js' vs' olds'] Cons.prems * p by simp
qed simp

lemma class_read:
  assumes O: "json_objects J view" and d: "distinct (map fst fs)"
    and root: "view root = jobj (put_list smap_set (map2 (\<lambda>(n, f) x. (n, f x)) (map (map_prod id F) fs) vs) [])"
    and vs: "list_all2 snd (map (map_prod id P) fs) vs" and olds: "list_all2 snd (map (map_prod id Q) fs) olds"
    and u: "\<And>n t v e old. (n, t) \<in> set fs \<Longrightarrow> P t v \<Longrightarrow> Q t old \<Longrightarrow> view e = F t v \<Longrightarrow> U t e old = Some (True, v)"
  shows "unmarshal_fields J (map (map_prod id U) fs) root olds = Some (True, vs)"
proof (rule fields_read)
  let ?js = "map (map_prod id F) fs" and ?us = "map (map_prod id U) fs"
  let ?ps = "map2 (\<lambda>(n, f) x. (n, f x)) ?js vs"
  have len: "length vs = length fs" "length olds = length fs" using vs olds by (auto dest: list_all2_lengthD)
  show "\<exists>e. member_get J n root = Some e \<and> view e = jmember (put_list smap_set ?ps []) n" for n
    using json_objectsD(3) [OF O root] by blast
  have fst: "map fst ?ps = map fst fs" by (rule nth_equalityI) (simp_all add: len split_beta)
  show "list_all2 (\<lambda>((n, u), (n', f)) (v, old). n' = n \<and> jmember (put_list smap_set ?ps []) n = f v \<and>
      (\<forall>e. view e = f v \<longrightarrow> u e old = Some (True, v))) (zip ?us ?js) (zip vs olds)"
  proof (rule list_all2_all_nthI)
    fix i assume "i < length (zip ?us ?js)"
    then have i: "i < length fs" by simp
    obtain n t where nt: "fs ! i = (n, t)" by (cases "fs ! i")
    then have mem: "(n, t) \<in> set fs" using i nth_mem by metis
    have "?ps ! i = (n, F t (vs ! i))" "i < length ?ps" using i nt len by simp_all
    then have in_ps: "(n, F t (vs ! i)) \<in> set ?ps" using nth_mem by metis
    have "distinct (map fst ?ps)" unfolding fst by (rule d)
    from smap.put_list_entry [OF smap_ok_Nil this in_ps] have jm: "jmember (put_list smap_set ?ps []) n = F t (vs ! i)"
      unfolding jmember_def by simp
    have "P t (vs ! i)" "Q t (olds ! i)"
      using list_all2_nthD [OF vs, of i] list_all2_nthD [OF olds, of i] i nt by simp_all
    from u [OF mem this] jm show "(\<lambda>((n, u), (n', f)) (v, old). n' = n \<and> jmember (put_list smap_set ?ps []) n = f v \<and>
      (\<forall>e. view e = f v \<longrightarrow> u e old = Some (True, v))) (zip ?us ?js ! i) (zip vs olds ! i)"
      using i nt len by simp
  qed (simp add: len)
qed (use vs olds in \<open>auto dest: list_all2_lengthD\<close>)

lemma Unmarshal_view:
  assumes L: "jsoncpp_laws J view flt" and E: "env_typed flt E"
  shows "typed flt t v \<Longrightarrow> marshallable t \<Longrightarrow> readable E t v \<Longrightarrow> typed flt t obj \<Longrightarrow> view root = json_of t v \<Longrightarrow>
    Unmarshal J E t root obj = Some (True, v)"
proof -
  have S: "json_scalars J view flt" and A: "json_arrays J view" and O: "json_objects J view"
    using L by (simp_all add: jsoncpp_laws_def)
  have tmp: "typed flt t (cv_local E t)" "typed flt t (cv_element E t)" for t using E by (simp_all add: env_typed_def)
  note rd = json_scalars_readD [OF S]
  show "typed flt t v \<Longrightarrow> marshallable t \<Longrightarrow> readable E t v \<Longrightarrow> typed flt t obj \<Longrightarrow> view root = json_of t v \<Longrightarrow>
    Unmarshal J E t root obj = Some (True, v)"
  proof (induction t arbitrary: v root obj)
    case (TVector t)
    from TVector.prems obtain vs where v: "v = VList vs" "\<forall>x \<in> set vs. typed flt t x \<and> readable E t x" "vs \<noteq> []" by auto
    have u: "Unmarshal J E t e (cv_local E t) = Some (True, x)" if "x \<in> set vs" "view e = json_of t x" for x e
      using TVector.IH TVector.prems(2) v(2) tmp that by simp
    have r: "view root = jarr (map (json_of t) vs)" using TVector.prems(5) by (simp add: v(1))
    show ?case unfolding v(1) Unmarshal.simps Unmarshal_vector_def
      by (rule array_reads [where u = "Unmarshal J E t" and tmp = "cv_local E t", OF A r v(3) u]) (simp_all add: fold_snoc)
  next
    case (TSet t)
    from TSet.prems obtain vs where v: "v = VList vs" "\<forall>x \<in> set vs. typed flt t x \<and> readable E t x" "vs \<noteq> []"
      "sorted_wrt (\<lambda>a b. cv_less E a b \<and> \<not> cv_less E b a) vs" by auto
    have u: "Unmarshal J E t e (cv_local E t) = Some (True, x)" if "x \<in> set vs" "view e = json_of t x" for x e
      using TSet.IH TSet.prems(2) v(2) tmp that by simp
    have r: "view root = jarr (map (json_of t) vs)" using TSet.prems(5) by (simp add: v(1))
    show ?case unfolding v(1) Unmarshal.simps Unmarshal_set_def
      by (rule array_reads [where u = "Unmarshal J E t" and tmp = "cv_local E t", OF A r v(3) u]) (use fold_set_insert [of "cv_less E" "[]" vs] v(4) in simp_all)
  next
    case (TUnorderedSet t)
    from TUnorderedSet.prems obtain vs where v: "v = VList vs" "\<forall>x \<in> set vs. typed flt t x \<and> readable E t x" "vs \<noteq> []"
      "distinct vs" by auto
    have u: "Unmarshal J E t e (cv_local E t) = Some (True, x)" if "x \<in> set vs" "view e = json_of t x" for x e
      using TUnorderedSet.IH TUnorderedSet.prems(2) v(2) tmp that by simp
    have r: "view root = jarr (map (json_of t) vs)" using TUnorderedSet.prems(5) by (simp add: v(1))
    show ?case unfolding v(1) Unmarshal.simps Unmarshal_unordered_set_def
      by (rule array_reads [where u = "Unmarshal J E t" and tmp = "cv_local E t", OF A r v(3) u]) (use fold_append_new [of "[]" vs] v(4) in simp_all)
  next
    case (TMap k t)
    from TMap.prems obtain kvs where v: "v = VMap kvs" "omap_ok kvs" "kvs \<noteq> []" "k \<noteq> KUInt32"
      and kt: "\<forall>(x, y) \<in> set kvs. key_typed k x \<and> typed flt t y" "\<forall>x \<in> snd ` set kvs. readable E t x" by auto
    have tr: "\<forall>(x, y) \<in> set kvs. key_typed k x \<and> (typed flt t y \<and> readable E t y)" using kt by (auto simp: split_beta)
    have u: "Unmarshal J E t e old = Some (True, x)" if "x \<in> snd ` set kvs" "view e = json_of t x" "typed flt t old" for x e old
      using TMap.IH TMap.prems(2) tr that by auto
    have r: "view root = jobj (put_list smap_set (map (map_prod member_name (json_of t)) kvs) [])" using TMap.prems(5) by (simp add: v(1))
    have "unmarshal_members J k (cv_element E t) (Unmarshal J E t) root obj = Some (True, VMap kvs)"
      by (rule members_read [where P = "typed flt t" and u = "Unmarshal J E t", OF O r v(3,2) tr tmp(2) u])
    then show ?case using v(4) by (simp add: v(1) Unmarshal_map_def)
  next
    case (TUnorderedMap k t)
    from TUnorderedMap.prems obtain kvs where v: "v = VMap kvs" "omap_ok kvs" "kvs \<noteq> []"
      and kt: "\<forall>(x, y) \<in> set kvs. key_typed k x \<and> typed flt t y" "\<forall>x \<in> snd ` set kvs. readable E t x" by auto
    have tr: "\<forall>(x, y) \<in> set kvs. key_typed k x \<and> (typed flt t y \<and> readable E t y)" using kt by (auto simp: split_beta)
    have u: "Unmarshal J E t e old = Some (True, x)" if "x \<in> snd ` set kvs" "view e = json_of t x" "typed flt t old" for x e old
      using TUnorderedMap.IH TUnorderedMap.prems(2) tr that by auto
    have r: "view root = jobj (put_list smap_set (map (map_prod member_name (json_of t)) kvs) [])" using TUnorderedMap.prems(5) by (simp add: v(1))
    have "unmarshal_members J k (cv_element E t) (Unmarshal J E t) root obj = Some (True, VMap kvs)"
      by (rule members_read [where P = "typed flt t" and u = "Unmarshal J E t", OF O r v(3,2) tr tmp(2) u])
    then show ?case by (simp add: v(1) Unmarshal_unordered_map_def)
  next
    case (TClass fs)
    from TClass.prems obtain vs olds where v: "v = VClass vs" "obj = VClass olds"
      "list_all2 snd (map (map_prod id (typed flt)) fs) vs" "list_all2 snd (map (map_prod id (readable E)) fs) vs"
      "list_all2 snd (map (map_prod id (typed flt)) fs) olds" by auto
    have both: "list_all2 snd (map (map_prod id (\<lambda>t x. typed flt t x \<and> readable E t x)) fs) vs"
      using v(3,4) by (simp add: list_all2_conv_all_nth)
    have u: "Unmarshal J E t e old = Some (True, x)"
      if "(n, t) \<in> set fs" "typed flt t x \<and> readable E t x" "typed flt t old" "view e = json_of t x" for n t x e old
    proof -
      have "marshallable t" using TClass.prems(2) that(1) by (auto simp: list_all_iff)
      then show ?thesis using TClass.IH [OF that(1), of t] that by simp
    qed
    have "unmarshal_fields J (map (map_prod id (Unmarshal J E)) fs) root olds = Some (True, vs)"
      by (rule class_read [where F = json_of, OF O _ _ both v(5) u]) (use TClass.prems(2,5) v(1) in simp_all)
    then show ?case by (simp add: v(1,2) Unmarshal_class_def)
  next
    case TInt32
    from TInt32.prems obtain i where i: "v = VInt i" "in_range (- (2 ^ 31)) (2 ^ 31) i" "view root = JInt i" by (auto simp: scalar_json_def)
    show ?case using rd(1) [OF i(3)] rd(2) [OF i(3,2)] by (simp add: i(1) Unmarshal_int32_def)
  next
    case TInt64
    from TInt64.prems obtain i where i: "v = VInt i" "in_range (- (2 ^ 63)) (2 ^ 63) i" "view root = JInt i" by (auto simp: scalar_json_def)
    show ?case using rd(1) [OF i(3)] rd(3) [OF i(3,2)] by (simp add: i(1) Unmarshal_int64_def)
  next
    case TUInt32
    from TUInt32.prems obtain i where i: "v = VInt i" "in_range 0 (2 ^ 32) i" "view root = JInt i" by (auto simp: scalar_json_def)
    show ?case using rd(1) [OF i(3)] rd(4) [OF i(3,2)] by (simp add: i(1) Unmarshal_uint32_def)
  next
    case TUInt64
    from TUInt64.prems obtain i where i: "v = VInt i" "in_range 0 (2 ^ 64) i" "view root = JInt i" by (auto simp: scalar_json_def)
    show ?case using rd(1) [OF i(3)] rd(5) [OF i(3,2)] by (simp add: i(1) Unmarshal_uint64_def)
  next
    case TEnum
    from TEnum.prems obtain i where i: "v = VInt i" "in_range (- (2 ^ 31)) (2 ^ 31) i" "view root = JInt i" by (auto simp: scalar_json_def)
    show ?case using rd(1) [OF i(3)] rd(2) [OF i(3,2)] by (simp add: i(1) Unmarshal_enum_def)
  next
    case TFloat
    from TFloat.prems obtain d where d: "v = VReal d" "flt d" "view root = JReal d" by (auto simp: scalar_json_def)
    show ?case using rd(6) [OF d(3)] rd(8) [OF d(3,2)] by (simp add: d(1) Unmarshal_float_def)
  next
    case TDouble
    from TDouble.prems obtain x where x: "v = VReal x" "view root = JReal x" by (auto simp: scalar_json_def)
    show ?case using rd(6) [OF x(2)] rd(7) [OF x(2)] by (simp add: x(1) Unmarshal_double_def)
  next
    case TBool
    from TBool.prems obtain x where x: "v = VBool x" "view root = JBool x" by (auto simp: scalar_json_def)
    show ?case using rd(9) [OF x(2)] rd(10) [OF x(2)] by (simp add: x(1) Unmarshal_bool_def)
  next
    case TString
    from TString.prems obtain x where x: "v = VString x" "view root = JString x" by (auto simp: scalar_json_def)
    show ?case using rd(11) [OF x(2)] rd(12) [OF x(2)] by (simp add: x(1) Unmarshal_string_def)
  qed simp_all
qed

text \<open>Empty containers are written as a null value, which is not accepted for a container.\<close>

lemma empty_vector_lost:
  assumes "jsoncpp_laws J view flt"
  shows "Marshal J (TVector t) (VList []) (jv_null J) = Some (True, jv_null J) \<and>
    Unmarshal J E (TVector t) (jv_null J) obj = Some (False, obj)"
proof -
  have S: "json_scalars J view flt" and A: "json_arrays J view" using assms by (simp_all add: jsoncpp_laws_def)
  have "\<not> isArray J (jv_null J)" by (simp add: json_arraysD(1) [OF A] json_scalarsD(1) [OF S])
  then show ?thesis by (simp add: Marshal_vector_def Unmarshal_vector_def)
qed

text \<open>A pointer to the text that stands for a null pointer comes back as a null pointer.\<close>

lemma nullptr_text_lost:
  assumes "jsoncpp_laws J view flt"
  shows "\<exists>r. Marshal J (TPointer TString) (VPtr (Some (VString ''nullptr''))) root = Some (True, r) \<and>
    Unmarshal J E (TPointer TString) r (VPtr (Some (VString old))) = Some (True, VPtr None)"
proof -
  have S: "json_scalars J view flt" using assms by (simp add: jsoncpp_laws_def)
  let ?r = "jv_string J ''nullptr''"
  have "view ?r = JString ''nullptr''" by (rule json_scalarsD(7) [OF S])
  then have "isString J ?r" "asString J ?r = Some ''nullptr''" using json_scalars_readD(11,12) [OF S] by blast+
  then show ?thesis by (simp add: Marshal_pointer_def Marshal_string_def Unmarshal_pointer_def kNullptrJsonStr_def)
qed

subsection \<open>A library that keeps the laws\<close>

text \<open>JSON values themselves, with value-initialised variables; a text is a number that encodes its value.\<close>

fun jelems :: "'d json \<Rightarrow> 'd json list option" where
  "jelems JNull = Some []"
| "jelems (JArray es) = Some es"
| "jelems _ = None"

fun jmembers :: "'d json \<Rightarrow> (string \<times> 'd json) list option" where
  "jmembers JNull = Some []"
| "jmembers (JObject m) = Some m"
| "jmembers _ = None"

definition as_ranged :: "int \<Rightarrow> int \<Rightarrow> 'd json \<Rightarrow> int option" where
  "as_ranged lo hi j = (case j of JInt i \<Rightarrow> if in_range lo hi i then Some i else None | _ \<Rightarrow> None)"

definition memory_json :: "('d :: countable json, 'd) jsoncpp" where
  "memory_json = \<lparr>
     jv_null = JNull, jv_int = JInt, jv_uint = JInt, jv_float = JReal, jv_double = JReal, jv_bool = JBool, jv_string = JString,
     isIntegral = (\<lambda>j. case j of JInt i \<Rightarrow> True | _ \<Rightarrow> False),
     isDouble = (\<lambda>j. case j of JReal d \<Rightarrow> True | _ \<Rightarrow> False),
     isBool = (\<lambda>j. case j of JBool b \<Rightarrow> True | _ \<Rightarrow> False),
     isString = (\<lambda>j. case j of JString str \<Rightarrow> True | _ \<Rightarrow> False),
     isArray = (\<lambda>j. case j of JArray es \<Rightarrow> True | _ \<Rightarrow> False),
     isObject = (\<lambda>j. case j of JObject m \<Rightarrow> True | _ \<Rightarrow> False),
     asInt = as_ranged (- (2 ^ 31)) (2 ^ 31), asInt64 = as_ranged (- (2 ^ 63)) (2 ^ 63),
     asUInt = as_ranged 0 (2 ^ 32), asUInt64 = as_ranged 0 (2 ^ 64),
     asFloat = (\<lambda>j. case j of JReal d \<Rightarrow> Some d | _ \<Rightarrow> None),
     asDouble = (\<lambda>j. case j of JReal d \<Rightarrow> Some d | _ \<Rightarrow> None),
     asBool = (\<lambda>j. case j of JBool b \<Rightarrow> Some b | _ \<Rightarrow> None),
     asString = (\<lambda>j. case j of JString str \<Rightarrow> Some str | _ \<Rightarrow> None),
     jv_size = (\<lambda>j. case jelems j of Some es \<Rightarrow> length es | None \<Rightarrow> 0),
     index_get = (\<lambda>i j. map_option (\<lambda>es. if i < length es then es ! i else JNull) (jelems j)),
     member_get = (\<lambda>k j. map_option (\<lambda>m. jmember m k) (jmembers j)),
     index_ref = (\<lambda>i j. map_option (\<lambda>es. if i < length es then es ! i else JNull) (jelems j)),
     index_put = (\<lambda>i e j. map_option
       (\<lambda>es. JArray (take i es @ replicate (i - length es) JNull @ e # drop (Suc i) es)) (jelems j)),
     member_ref = (\<lambda>k j. map_option (\<lambda>m. jmember m k) (jmembers j)),
     member_put = (\<lambda>k e j. map_option (\<lambda>m. JObject (smap_set k e m)) (jmembers j)),
     jv_append = (\<lambda>e j. map_option (\<lambda>es. JArray (es @ [e])) (jelems j)),
     getMemberNames = (\<lambda>j. map_option (\<lambda>m. remdups (map fst m)) (jmembers j)),
     reader_parse = (\<lambda>str. Some (from_nat (digits_val 0 str))),
     styled_write = (\<lambda>j. nat_str (to_nat j)),
     fast_write = (\<lambda>j. nat_str (to_nat j)) \<rparr>"

lemma jelems_jarr [simp]: "jelems (jarr es) = Some es"
  by (simp add: jarr_def)

lemma jmembers_jobj [simp]: "jmembers (jobj m) = Some m"
  by (simp add: jobj_def)

lemma memory_json_laws: "jsoncpp_laws (memory_json :: ('d :: countable json, 'd) jsoncpp) id (\<lambda>d. True)"
  unfolding jsoncpp_laws_def
proof (intro conjI)
  show "json_scalars (memory_json :: ('d json, 'd) jsoncpp) id (\<lambda>d. True)"
    by (simp add: json_scalars_def memory_json_def as_ranged_def)
  show "json_arrays (memory_json :: ('d json, 'd) jsoncpp) id"
    by (simp add: json_arrays_def memory_json_def split: json.split)
  show "json_objects (memory_json :: ('d json, 'd) jsoncpp) id"
    by (simp add: json_objects_def memory_json_def split: json.split)
qed

lemma memory_json_typed: "jsoncpp_typed (memory_json :: ('d :: countable json, 'd) jsoncpp) (\<lambda>d. True)"
  by (simp add: jsoncpp_typed_def memory_json_def as_ranged_def split: json.split)

lemma memory_json_text [simp]:
  "reader_parse memory_json (fast_write memory_json j) = Some j" "reader_parse memory_json (styled_write memory_json j) = Some j"
  by (simp_all add: memory_json_def digits_val_nat_str)

primrec zero_of :: "ctype \<Rightarrow> 'd :: zero cval" where
  "zero_of TInt32 = VInt 0"
| "zero_of TInt64 = VInt 0"
| "zero_of TUInt32 = VInt 0"
| "zero_of TUInt64 = VInt 0"
| "zero_of TFloat = VReal 0"
| "zero_of TDouble = VReal 0"
| "zero_of TBool = VBool False"
| "zero_of TString = VString []"
| "zero_of TEnum = VInt 0"
| "zero_of (TVector t) = VList []"
| "zero_of (TMap k t) = VMap []"
| "zero_of (TUnorderedMap k t) = VMap []"
| "zero_of (TSet t) = VList []"
| "zero_of (TUnorderedSet t) = VList []"
| "zero_of (TPointer t) = VPtr None"
| "zero_of (TClass fs) = VClass (map snd (map (map_prod id zero_of) fs))"
| "zero_of TUncaught = VOpaque"

definition zero_env :: "'d :: zero cxx_env" where
  "zero_env = \<lparr> cv_local = zero_of, cv_element = zero_of, cv_less = (\<lambda>a b. False) \<rparr>"

lemma zero_of_typed: "typed (\<lambda>d. True) t (zero_of t)"
proof (induction t)
  case (TClass fs)
  then show ?case by (auto simp: list_all2_map1 list_all2_map2 intro!: list.rel_refl_strong)
qed (auto simp: in_range_def)

lemma zero_env_typed: "env_typed (\<lambda>d. True) zero_env"
  by (simp add: env_typed_def zero_env_def zero_of_typed)

subsection \<open>Properties\<close>





end
