(* ===== verification/Shared_Memory.thy ===== *)
theory Shared_Memory
  imports Prelude
begin

text \<open>
  The shared memory blocks of \<^verbatim>\<open>src/lockfree/ipc_message_queue/shared_memory/\<close>: the base class, the read-only and
  the read-write block and the older \<open>RingBufferSharedMemory\<close>, with the time stamps of
  \<^verbatim>\<open>src/util/time/timestamp.h\<close> and the table of blocks of \<^verbatim>\<open>ipc_message_queue.h\<close>.  Boost.Interprocess is a record of
  functions on a world of type \<open>'w\<close>; the world may change between any two calls.
\<close>

subsection \<open>Boost.Interprocess and the ends of a call\<close>

text \<open>
  Objects are named by handles.  \<^const>\<open>None\<close> is an exception of the library.  \<open>shm_map\<close> is the size of the
  region a handle is mapped to, \<open>shm_byte\<close> a byte of it.
\<close>

record 'w boost_ipc =
  shm_open_only :: "string \<Rightarrow> 'w \<Rightarrow> nat option"
  shm_open_or_create :: "string \<Rightarrow> 'w \<Rightarrow> (nat \<times> 'w) option"
  shm_get_size :: "nat \<Rightarrow> 'w \<Rightarrow> int"
  shm_truncate :: "nat \<Rightarrow> int \<Rightarrow> 'w \<Rightarrow> 'w option"
  shm_remove :: "string \<Rightarrow> 'w \<Rightarrow> 'w"
  shm_map :: "nat \<Rightarrow> 'w \<Rightarrow> 64 word option"
  shm_byte :: "nat \<Rightarrow> nat \<Rightarrow> 'w \<Rightarrow> 8 word"
  path_exists :: "string \<Rightarrow> 'w \<Rightarrow> bool"
  create_file :: "string \<Rightarrow> 'w \<Rightarrow> 'w option"
  file_lock :: "string \<Rightarrow> 'w \<Rightarrow> 'w option"
  file_unlock :: "string \<Rightarrow> 'w \<Rightarrow> 'w"

datatype stop = Exit | Exception | Undefined

definition rbind :: "stop + 'a \<Rightarrow> ('a \<Rightarrow> stop + 'b) \<Rightarrow> stop + 'b" where
  "rbind m f = (case m of Inl e \<Rightarrow> Inl e | Inr x \<Rightarrow> f x)"

definition or_throw :: "'a option \<Rightarrow> stop + 'a" where
  "or_throw m = (case m of None \<Rightarrow> Inl Exception | Some x \<Rightarrow> Inr x)"

definition deref :: "'a option \<Rightarrow> stop + 'a" where
  "deref p = (case p of None \<Rightarrow> Inl Undefined | Some x \<Rightarrow> Inr x)"

text \<open>A failed \<open>CHECK\<close> is a FATAL log, which ends the process in a release build only.\<close>

definition CHECK :: "bool \<Rightarrow> bool \<Rightarrow> stop + unit" where
  "CHECK release ok = (if ok \<or> \<not> release then Inr () else Inl Exit)"

subsection \<open>Time stamps\<close>

definition TimestampSec :: "int \<times> int \<Rightarrow> 64 word" where
  "TimestampSec tv = word_of_int (fst tv)"

definition TimestampMicroSec :: "int \<times> int \<Rightarrow> 64 word" where
  "TimestampMicroSec tv = word_of_int (fst tv * 1000 * 1000 + snd tv)"

definition TimestampNanoSec :: "int \<times> int \<Rightarrow> 64 word" where
  "TimestampNanoSec ts = word_of_int (fst ts * 1000 * 1000 * 1000 + snd ts)"

subsection \<open>The base class\<close>

record region =
  rg_handle :: nat
  rg_size :: "64 word"

record node_info =
  ni_shared_memory_key :: string
  ni_process_id :: int
  ni_channel_id :: "32 word"
  ni_offset :: "64 word"
  ni_length :: "64 word"
  ni_check_sum :: "32 word"
  ni_expired_timestamp_ns :: "64 word"

definition NodeInfo :: node_info where
  "NodeInfo = \<lparr> ni_shared_memory_key = [], ni_process_id = 0, ni_channel_id = 0, ni_offset = 0, ni_length = 0,
     ni_check_sum = 0, ni_expired_timestamp_ns = 0 \<rparr>"

record shared_memory =
  sm_is_readonly :: bool
  sm_shared_memory_key :: string
  sm_shared_memory :: "nat option"
  sm_mapped_region :: "region option"

definition SharedMemory :: "bool \<Rightarrow> bool \<Rightarrow> string \<Rightarrow> stop + shared_memory" where
  "SharedMemory release is_readonly key =
     rbind (CHECK release (key \<noteq> [])) (\<lambda>_.
     Inr \<lparr> sm_is_readonly = is_readonly, sm_shared_memory_key = key, sm_shared_memory = None, sm_mapped_region = None \<rparr>)"

definition SharedMemoryByteSize :: "'w boost_ipc \<Rightarrow> bool \<Rightarrow> nat option \<Rightarrow> 'w \<Rightarrow> stop + int" where
  "SharedMemoryByteSize api release shm w =
     rbind (CHECK release (shm \<noteq> None)) (\<lambda>_.
     rbind (deref shm) (\<lambda>h.
     Inr (shm_get_size api h w)))"

definition mapped_region :: "'w boost_ipc \<Rightarrow> nat \<Rightarrow> 'w \<Rightarrow> stop + region" where
  "mapped_region api h w = rbind (or_throw (shm_map api h w)) (\<lambda>n. Inr \<lparr> rg_handle = h, rg_size = n \<rparr>)"

subsection \<open>The read-only block\<close>

record read_only_shm = shared_memory +
  ro_is_available :: bool

definition ro_OpenSharedMemory :: "'w boost_ipc \<Rightarrow> bool \<Rightarrow> read_only_shm \<Rightarrow> 'w \<Rightarrow> stop + bool \<times> read_only_shm" where
  "ro_OpenSharedMemory api release s w =
     (case shm_open_only api (sm_shared_memory_key s) w of
        None \<Rightarrow> Inr (False, s)
      | Some h \<Rightarrow>
          rbind (SharedMemoryByteSize api release (Some h) w) (\<lambda>current_size_bytes.
          if current_size_bytes = 0 then Inr (False, s\<lparr>sm_shared_memory := Some h\<rparr>)
          else rbind (mapped_region api h w) (\<lambda>r.
               Inr (True, s\<lparr>sm_shared_memory := Some h, sm_mapped_region := Some r\<rparr>))))"

definition ReadOnlySharedMemory :: "'w boost_ipc \<Rightarrow> bool \<Rightarrow> string \<Rightarrow> 'w \<Rightarrow> stop + read_only_shm" where
  "ReadOnlySharedMemory api release key w =
     rbind (SharedMemory release True key) (\<lambda>b.
     rbind (ro_OpenSharedMemory api release (shared_memory.extend b \<lparr> ro_is_available = False \<rparr>) w) (\<lambda>(ok, s).
     Inr (s\<lparr>ro_is_available := ok\<rparr>)))"

definition ro_Write :: "8 word list \<Rightarrow> read_only_shm \<Rightarrow> bool" where
  "ro_Write data s = False"

definition CheckIfAvailable :: "'w boost_ipc \<Rightarrow> bool \<Rightarrow> 64 word \<Rightarrow> node_info \<Rightarrow> read_only_shm \<Rightarrow> 'w \<Rightarrow>
    stop + bool \<times> read_only_shm" where
  "CheckIfAvailable api release now node s w =
     rbind (if ro_is_available s then Inr (True, s)
            else rbind (ro_OpenSharedMemory api release s w) (\<lambda>(ok, s1). Inr (ok, s1\<lparr>ro_is_available := ok\<rparr>)))
     (\<lambda>(ok, s1).
        if \<not> ok then Inr (False, s1)
        else if now > ni_expired_timestamp_ns node then Inr (False, s1)
        else rbind (deref (sm_mapped_region s1)) (\<lambda>r.
             if ni_offset node + ni_length node > rg_size r then Inr (False, s1\<lparr>ro_is_available := False\<rparr>)
             else Inr (True, s1)))"

text \<open>The copy out of the region: any access outside is undefined.\<close>

definition region_bytes :: "'w boost_ipc \<Rightarrow> region \<Rightarrow> 64 word \<Rightarrow> 64 word \<Rightarrow> 'w \<Rightarrow> stop + 8 word list" where
  "region_bytes api r off len w =
     (if unat off + unat len \<le> unat (rg_size r)
      then Inr (map (\<lambda>i. shm_byte api (rg_handle r) (unat off + i) w) [0..<unat len])
      else Inl Undefined)"

definition ro_copy :: "'w boost_ipc \<Rightarrow> bool \<Rightarrow> bool \<Rightarrow> 64 word \<Rightarrow> node_info \<Rightarrow> 8 word list \<Rightarrow> read_only_shm \<Rightarrow> 'w \<Rightarrow>
    stop + bool \<times> 8 word list \<times> read_only_shm" where
  "ro_copy api release result now node data s w =
     rbind (CheckIfAvailable api release now node s w) (\<lambda>(ok, s1).
     if \<not> ok then Inr (False, data, s1)
     else rbind (deref (sm_mapped_region s1)) (\<lambda>r.
          rbind (region_bytes api r (ni_offset node) (ni_length node) w) (\<lambda>bytes.
          Inr (result, bytes, s1))))"

text \<open>The overload for a vector returns false also when it has copied the data.\<close>

definition ro_Read_vector :: "'w boost_ipc \<Rightarrow> bool \<Rightarrow> 64 word \<Rightarrow> node_info \<Rightarrow> 8 word list \<Rightarrow> read_only_shm \<Rightarrow> 'w \<Rightarrow>
    stop + bool \<times> 8 word list \<times> read_only_shm" where
  "ro_Read_vector api release = ro_copy api release False"

definition ro_Read_string :: "'w boost_ipc \<Rightarrow> bool \<Rightarrow> 64 word \<Rightarrow> node_info \<Rightarrow> 8 word list \<Rightarrow> read_only_shm \<Rightarrow> 'w \<Rightarrow>
    stop + bool \<times> 8 word list \<times> read_only_shm" where
  "ro_Read_string api release = ro_copy api release True"

subsection \<open>The read-write block\<close>

record shm_node =
  nd_offset :: "64 word"
  nd_length :: "64 word"
  nd_expired_timestamp :: "64 word"

record read_write_shm = shared_memory +
  rw_file_lock_path :: string
  rw_shared_memory_size_mb :: "32 word"
  rw_nodes :: "shm_node list"
  rw_total_size_bytes :: "64 word"
  rw_free_size_bytes :: "64 word"
  rw_free_offset :: "64 word"

definition lock_path :: "string \<Rightarrow> string" where
  "lock_path key = ''./ring_buffer_shared_memory/'' @ key @ ''.lock''"

text \<open>\<open>shared_memory_size_mb_ << 20\<close> is computed in 32 bits and then widened.\<close>

definition desired_size :: "32 word \<Rightarrow> int" where
  "desired_size mb = uint (push_bit 20 mb)"

definition open_or_create :: "'w boost_ipc \<Rightarrow> bool \<Rightarrow> string \<Rightarrow> nat option \<Rightarrow> 'w \<Rightarrow> stop + nat option \<times> 'w" where
  "open_or_create api release key old w =
     (case shm_open_or_create api key w of
        None \<Rightarrow> rbind (CHECK release False) (\<lambda>_. Inr (old, w))
      | Some (h, w1) \<Rightarrow> Inr (Some h, w1))"

definition rw_OpenSharedMemory :: "'w boost_ipc \<Rightarrow> bool \<Rightarrow> read_write_shm \<Rightarrow> 'w \<Rightarrow> stop + read_write_shm \<times> 'w" where
  "rw_OpenSharedMemory api release s w =
     (let desired_size_bytes = desired_size (rw_shared_memory_size_mb s) in
      rbind (or_throw (file_lock api (rw_file_lock_path s) w)) (\<lambda>w1.
      rbind (open_or_create api release (sm_shared_memory_key s) (sm_shared_memory s) w1) (\<lambda>(shm, w2).
      rbind (SharedMemoryByteSize api release shm w2) (\<lambda>current_size_bytes.
      rbind (CHECK release (current_size_bytes = 0 \<or> current_size_bytes = desired_size_bytes)) (\<lambda>_.
      rbind (deref shm) (\<lambda>h.
      rbind (if current_size_bytes = 0 then or_throw (shm_truncate api h desired_size_bytes w2) else Inr w2) (\<lambda>w3.
      rbind (SharedMemoryByteSize api release shm w3) (\<lambda>current_size_bytes.
      rbind (CHECK release (current_size_bytes = desired_size_bytes)) (\<lambda>_.
      rbind (mapped_region api h w3) (\<lambda>r.
      Inr (s\<lparr>sm_shared_memory := shm, sm_mapped_region := Some r\<rparr>, file_unlock api (rw_file_lock_path s) w3)))))))))))"

definition ReadWriteSharedMemory :: "'w boost_ipc \<Rightarrow> bool \<Rightarrow> string \<Rightarrow> 32 word \<Rightarrow> 'w \<Rightarrow> stop + read_write_shm \<times> 'w" where
  "ReadWriteSharedMemory api release key mb w =
     rbind (SharedMemory release False key) (\<lambda>b.
     rbind (CHECK release (mb > 0)) (\<lambda>_.
     rw_OpenSharedMemory api release
       (shared_memory.extend b \<lparr> rw_file_lock_path = lock_path key, rw_shared_memory_size_mb = mb, rw_nodes = [],
          rw_total_size_bytes = 0, rw_free_size_bytes = 0, rw_free_offset = 0 \<rparr>) w))"

text \<open>Reading and writing are stubs.\<close>

definition rw_Write :: "8 word list \<Rightarrow> node_info \<Rightarrow> read_write_shm \<Rightarrow> bool \<times> node_info" where
  "rw_Write data node s = (True, node)"

definition rw_Read :: "node_info \<Rightarrow> 8 word list \<Rightarrow> read_write_shm \<Rightarrow> bool \<times> 8 word list" where
  "rw_Read node data s = (True, data)"

subsection \<open>RingBufferSharedMemory\<close>

record ring_shm =
  rb_shared_memory_key :: string
  rb_file_lock_path :: string
  rb_shared_memory_size_mb :: "32 word"
  rb_is_readonly :: bool
  rb_is_available :: bool
  rb_nodes :: "shm_node list"
  rb_shared_memory :: "nat option"
  rb_mapped_region :: "region option"
  rb_total_size_bytes :: "64 word"
  rb_free_size_bytes :: "64 word"
  rb_free_offset :: "64 word"

definition RingBufferSharedMemory :: "bool \<Rightarrow> string \<Rightarrow> 32 word \<Rightarrow> stop + ring_shm" where
  "RingBufferSharedMemory release key mb =
     rbind (CHECK release (key \<noteq> [])) (\<lambda>_.
     rbind (CHECK release (mb > 0)) (\<lambda>_.
     Inr \<lparr> rb_shared_memory_key = key, rb_file_lock_path = lock_path key, rb_shared_memory_size_mb = mb,
       rb_is_readonly = False, rb_is_available = False, rb_nodes = [], rb_shared_memory = None, rb_mapped_region = None,
       rb_total_size_bytes = 0, rb_free_size_bytes = 0, rb_free_offset = 0 \<rparr>))"

definition rb_SharedMemorySize :: "'w boost_ipc \<Rightarrow> nat option \<Rightarrow> 'w \<Rightarrow> stop + int" where
  "rb_SharedMemorySize api shm w = rbind (deref shm) (\<lambda>h. Inr (shm_get_size api h w))"

text \<open>\<open>OpenSharedMemory\<close>, its two branches apart (the size is declared and read twice in the first).\<close>

definition rb_open_readonly :: "'w boost_ipc \<Rightarrow> ring_shm \<Rightarrow> 'w \<Rightarrow> stop + bool \<times> ring_shm" where
  "rb_open_readonly api s w =
     (case shm_open_only api (rb_shared_memory_key s) w of
        None \<Rightarrow> Inr (False, s)
      | Some h \<Rightarrow>
          rbind (rb_SharedMemorySize api (Some h) w) (\<lambda>current_size_bytes.
          if current_size_bytes \<noteq> desired_size (rb_shared_memory_size_mb s) then Inr (False, s\<lparr>rb_shared_memory := None\<rparr>)
          else rbind (mapped_region api h w) (\<lambda>r.
               Inr (True, s\<lparr>rb_shared_memory := Some h, rb_mapped_region := Some r, rb_is_available := True\<rparr>))))"

definition rb_open_readwrite :: "'w boost_ipc \<Rightarrow> bool \<Rightarrow> ring_shm \<Rightarrow> 'w \<Rightarrow> stop + bool \<times> ring_shm \<times> 'w" where
  "rb_open_readwrite api release s w =
     (let desired_size_bytes = desired_size (rb_shared_memory_size_mb s) in
      rbind (or_throw (file_lock api (rb_file_lock_path s) w)) (\<lambda>w1.
      rbind (open_or_create api release (rb_shared_memory_key s) (rb_shared_memory s) w1) (\<lambda>(shm, w2).
      rbind (rb_SharedMemorySize api shm w2) (\<lambda>current_size_bytes.
      if current_size_bytes \<noteq> 0 \<and> current_size_bytes \<noteq> desired_size_bytes
      then rbind (CHECK release False) (\<lambda>_.
           Inr (False, s\<lparr>rb_shared_memory := shm\<rparr>, file_unlock api (rb_file_lock_path s) w2))
      else rbind (deref shm) (\<lambda>h.
           rbind (if current_size_bytes = 0 then or_throw (shm_truncate api h desired_size_bytes w2) else Inr w2) (\<lambda>w3.
           rbind (rb_SharedMemorySize api shm w3) (\<lambda>current_size_bytes.
           rbind (CHECK release (current_size_bytes = desired_size_bytes)) (\<lambda>_.
           rbind (mapped_region api h w3) (\<lambda>r.
           Inr (True, s\<lparr>rb_shared_memory := shm, rb_mapped_region := Some r, rb_is_available := True\<rparr>,
             file_unlock api (rb_file_lock_path s) w3))))))))))"

definition rb_OpenSharedMemory :: "'w boost_ipc \<Rightarrow> bool \<Rightarrow> ring_shm \<Rightarrow> 'w \<Rightarrow> stop + bool \<times> ring_shm \<times> 'w" where
  "rb_OpenSharedMemory api release s w =
     (if rb_is_readonly s then rbind (rb_open_readonly api s w) (\<lambda>(ok, s1). Inr (ok, s1, w))
      else rb_open_readwrite api release s w)"

text \<open>\<open>OpenSharedMemory2\<close>: the resizing under the lock, and the whole function.\<close>

definition rb_resize :: "'w boost_ipc \<Rightarrow> nat \<Rightarrow> ring_shm \<Rightarrow> 'w \<Rightarrow> stop + ring_shm \<times> 'w" where
  "rb_resize api h s w =
     (let desired_size_bytes = desired_size (rb_shared_memory_size_mb s); path = rb_file_lock_path s in
      rbind (if path_exists api path w then Inr w else or_throw (create_file api path w)) (\<lambda>w1.
      rbind (or_throw (file_lock api path w1)) (\<lambda>w2.
      let current_size_bytes = shm_get_size api h w2 in
      rbind (if current_size_bytes \<noteq> desired_size_bytes
             then rbind (if current_size_bytes \<noteq> 0
                         then or_throw (shm_open_or_create api (rb_shared_memory_key s)
                                (shm_remove api (rb_shared_memory_key s) w2))
                         else Inr (h, w2)) (\<lambda>(h', w3).
                  rbind (or_throw (shm_truncate api h' desired_size_bytes w3)) (\<lambda>w4. Inr (h', w4)))
             else Inr (h, w2)) (\<lambda>(h', w4).
      rbind (mapped_region api h' w4) (\<lambda>r.
      Inr (s\<lparr>rb_shared_memory := Some h', rb_mapped_region := Some r, rb_is_available := True\<rparr>,
        file_unlock api path w4))))))"

definition rb_OpenSharedMemory2 :: "'w boost_ipc \<Rightarrow> bool \<Rightarrow> ring_shm \<Rightarrow> 'w \<Rightarrow> stop + ring_shm \<times> 'w" where
  "rb_OpenSharedMemory2 api release s w =
     (if rb_is_readonly s \<and> shm_open_only api (rb_shared_memory_key s) w = None then Inr (s, w)
      else rbind (if rb_is_readonly s then Inr (shm_open_only api (rb_shared_memory_key s) w, w)
                  else open_or_create api release (rb_shared_memory_key s) (rb_shared_memory s) w) (\<lambda>(shm, w1).
           rbind (CHECK release (shm \<noteq> None)) (\<lambda>_.
           rbind (deref shm) (\<lambda>h.
           let s1 = s\<lparr>rb_shared_memory := Some h\<rparr> in
           if shm_get_size api h w1 = desired_size (rb_shared_memory_size_mb s)
           then rbind (mapped_region api h w1) (\<lambda>r. Inr (s1\<lparr>rb_mapped_region := Some r, rb_is_available := True\<rparr>, w1))
           else rbind (CHECK release (rb_mapped_region s \<noteq> None)) (\<lambda>_.
                if rb_is_readonly s then Inr (s1, w1) else rb_resize api h s1 w1)))))"

subsection \<open>The table of blocks\<close>

text \<open>
  \<open>IpcMessageQueue::SharedMemory\<close>: a thread looks into its own table and, when it misses, into the common one
  with the mutex held, where a missing block is created.  Blocks are numbers; a thread is between the two
  look-ups in state \<open>Missed\<close>.
\<close>

datatype ipc_pc = Idle | Missed string

record ipc_tables =
  central_shared_memory_map :: "string \<rightharpoonup> nat"
  local_shared_memory_map :: "nat \<Rightarrow> string \<rightharpoonup> nat"
  ipc_next :: nat
  ipc_pc_of :: "nat \<Rightarrow> ipc_pc"

definition IpcMessageQueue :: ipc_tables where
  "IpcMessageQueue = \<lparr> central_shared_memory_map = Map.empty, local_shared_memory_map = (\<lambda>t. Map.empty), ipc_next = 0,
     ipc_pc_of = (\<lambda>t. Idle) \<rparr>"

definition local_find :: "nat \<Rightarrow> string \<Rightarrow> ipc_tables \<Rightarrow> nat option \<times> ipc_tables" where
  "local_find t key s =
     (case local_shared_memory_map s t key of
        Some b \<Rightarrow> (Some b, s)
      | None \<Rightarrow> (None, s\<lparr>ipc_pc_of := (ipc_pc_of s)(t := Missed key)\<rparr>))"

definition central_find :: "nat \<Rightarrow> string \<Rightarrow> ipc_tables \<Rightarrow> nat \<times> ipc_tables" where
  "central_find t key s =
     (case central_shared_memory_map s key of
        Some b \<Rightarrow>
          (b, s\<lparr>local_shared_memory_map := (local_shared_memory_map s)(t := (local_shared_memory_map s t)(key \<mapsto> b)),
               ipc_pc_of := (ipc_pc_of s)(t := Idle)\<rparr>)
      | None \<Rightarrow>
          (ipc_next s,
           s\<lparr>central_shared_memory_map := (central_shared_memory_map s)(key \<mapsto> ipc_next s),
             local_shared_memory_map := (local_shared_memory_map s)(t := (local_shared_memory_map s t)(key \<mapsto> ipc_next s)),
             ipc_next := Suc (ipc_next s), ipc_pc_of := (ipc_pc_of s)(t := Idle)\<rparr>))"

text \<open>Steps of any number of threads, with the calls that have returned.\<close>

inductive ipc_step :: "ipc_tables \<times> (nat \<times> string \<times> nat) list \<Rightarrow> ipc_tables \<times> (nat \<times> string \<times> nat) list \<Rightarrow> bool" where
  hit: "ipc_pc_of s t = Idle \<Longrightarrow> local_find t key s = (Some b, s') \<Longrightarrow> ipc_step (s, rs) (s', rs @ [(t, key, b)])"
| miss: "ipc_pc_of s t = Idle \<Longrightarrow> local_find t key s = (None, s') \<Longrightarrow> ipc_step (s, rs) (s', rs)"
| central: "ipc_pc_of s t = Missed key \<Longrightarrow> central_find t key s = (b, s') \<Longrightarrow> ipc_step (s, rs) (s', rs @ [(t, key, b)])"

subsection \<open>The contract of Boost.Interprocess\<close>

text \<open>
  \<open>names\<close> are the objects by name and \<open>mem\<close> their bytes.  A new object has no bytes, \<open>truncate\<close> sets their number, a
  region is as large as its object was when it was mapped, and locks do not touch objects.
\<close>

definition boost_laws :: "'w boost_ipc \<Rightarrow> ('w \<Rightarrow> string \<rightharpoonup> nat) \<Rightarrow> ('w \<Rightarrow> nat \<rightharpoonup> 8 word list) \<Rightarrow> bool" where
  "boost_laws api names mem \<longleftrightarrow>
     (\<forall>k w. shm_open_only api k w = names w k) \<and>
     (\<forall>k w h w'. shm_open_or_create api k w = Some (h, w') \<longrightarrow> names w' k = Some h \<and>
        (names w k = None \<longrightarrow> mem w' h = Some []) \<and> (\<forall>h'. names w k = Some h' \<longrightarrow> h' = h \<and> mem w' h = mem w h)) \<and>
     (\<forall>k w h. names w k = Some h \<longrightarrow> mem w h \<noteq> None) \<and>
     (\<forall>h w bs. mem w h = Some bs \<longrightarrow> shm_get_size api h w = int (length bs)) \<and>
     (\<forall>h n w w'. shm_truncate api h n w = Some w' \<longrightarrow>
        (\<forall>k. names w' k = names w k) \<and> (\<exists>bs. mem w' h = Some bs \<and> int (length bs) = n)) \<and>
     (\<forall>h w bs n. mem w h = Some bs \<longrightarrow> shm_map api h w = Some n \<longrightarrow> n = word_of_nat (length bs)) \<and>
     (\<forall>h w bs i. mem w h = Some bs \<longrightarrow> i < length bs \<longrightarrow> shm_byte api h i w = bs ! i) \<and>
     (\<forall>path w w'. file_lock api path w = Some w' \<longrightarrow> (\<forall>k. names w' k = names w k) \<and> (\<forall>h. mem w' h = mem w h)) \<and>
     (\<forall>path w k h. names (file_unlock api path w) k = names w k \<and> mem (file_unlock api path w) h = mem w h)"

lemma boost_lawsD:
  assumes "boost_laws api names mem"
  shows "shm_open_only api k w = names w k"
    "shm_open_or_create api k w = Some (h, w') \<Longrightarrow> names w' k = Some h"
    "names w k = Some h \<Longrightarrow> \<exists>bs. mem w h = Some bs"
    "mem w h = Some bs \<Longrightarrow> shm_get_size api h w = int (length bs)"
    "shm_truncate api h n w = Some w' \<Longrightarrow> names w' k = names w k"
    "shm_truncate api h n w = Some w' \<Longrightarrow> \<exists>bs. mem w' h = Some bs \<and> int (length bs) = n"
    "mem w h = Some bs \<Longrightarrow> shm_map api h w = Some sz \<Longrightarrow> sz = word_of_nat (length bs)"
    "mem w h = Some bs \<Longrightarrow> i < length bs \<Longrightarrow> shm_byte api h i w = bs ! i"
    "names (file_unlock api path w) k = names w k" "mem (file_unlock api path w) h = mem w h"
    "shm_open_or_create api k w = Some (h, w') \<Longrightarrow> names w k = None \<Longrightarrow> mem w' h = Some []"
  using assms by (simp_all add: boost_laws_def)

lemma rbind_Inr [simp]: "rbind (Inr x) f = f x"
  by (simp add: rbind_def)

lemma rbind_Inl [simp]: "rbind (Inl e) f = Inl e"
  by (simp add: rbind_def)

lemma rbind_eq_Inr: "rbind m f = Inr y \<longleftrightarrow> (\<exists>x. m = Inr x \<and> f x = Inr y)"
  by (cases m) simp_all

lemma or_throw_eq_Inr: "or_throw m = Inr x \<longleftrightarrow> m = Some x"
  by (cases m) (simp_all add: or_throw_def)

lemma deref_eq_Inr: "deref p = Inr x \<longleftrightarrow> p = Some x"
  by (cases p) (simp_all add: deref_def)

lemma CHECK_eq_Inr: "CHECK release ok = Inr u \<longleftrightarrow> ok \<or> \<not> release"
  by (simp add: CHECK_def)

lemmas result_iffs = rbind_eq_Inr or_throw_eq_Inr deref_eq_Inr CHECK_eq_Inr

lemma SharedMemoryByteSize_Some [simp]: "SharedMemoryByteSize api release (Some h) w = Inr (shm_get_size api h w)"
  by (simp add: SharedMemoryByteSize_def CHECK_def deref_def)

lemma desired_size_exact: "unat mb < 4096 \<Longrightarrow> desired_size mb = int (unat mb * 2 ^ 20)"
proof -
  assume "unat mb < 4096"
  then have "unat mb * 2 ^ 20 < 2 ^ 32" by simp
  then have "int (unat mb * 2 ^ 20) < int (2 ^ 32)" by (rule of_nat_less_iff [THEN iffD2])
  then have b: "int (unat mb * 2 ^ 20) < 2 ^ 32" by (simp only: of_nat_power of_nat_numeral)
  have "desired_size mb = take_bit 32 (push_bit 20 (uint mb))" by (simp add: desired_size_def unsigned_push_bit_eq)
  also have "push_bit 20 (uint mb) = int (unat mb * 2 ^ 20)" by (simp add: push_bit_eq_mult)
  also have "take_bit 32 (int (unat mb * 2 ^ 20)) = int (unat mb * 2 ^ 20)" by (rule take_bit_int_eq_self [OF _ b]) simp
  finally show ?thesis .
qed

text \<open>The multiplication wraps from 4096 MB on.\<close>

lemma desired_size_wraps: "desired_size 4096 = 0"
  by (simp add: desired_size_def)

text \<open>\<open>OpenSharedMemory2\<close> demands a mapping before it has made one: a new block cannot be created.\<close>

lemma rb_OpenSharedMemory2_new:
  assumes "boost_laws api names mem" "RingBufferSharedMemory True key mb = Inr s" "names w key = None"
    "shm_open_or_create api key w = Some (h, w1)" "desired_size mb \<noteq> 0"
  shows "rb_OpenSharedMemory2 api True s w = Inl Exit"
proof -
  have "mem w1 h = Some []" using boost_lawsD(11) [OF assms(1)] assms(3,4) by blast
  then have "shm_get_size api h w1 = 0" using boost_lawsD(4) [OF assms(1)] by fastforce
  then show ?thesis using assms(2,4,5)
    by (auto simp: RingBufferSharedMemory_def rb_OpenSharedMemory2_def open_or_create_def result_iffs CHECK_def deref_def)
qed

subsection \<open>Writer and reader\<close>

lemma rw_open_block:
  assumes L: "boost_laws api names mem" and run: "rw_OpenSharedMemory api True s w = Inr (s', w')"
    and mb: "unat (rw_shared_memory_size_mb s) < 4096"
  shows "\<exists>h bs. names w' (sm_shared_memory_key s) = Some h \<and> mem w' h = Some bs \<and>
    length bs = unat (rw_shared_memory_size_mb s) * 2 ^ 20 \<and>
    sm_mapped_region s' = Some \<lparr> rg_handle = h, rg_size = word_of_nat (length bs) \<rparr>"
proof -
  let ?k = "sm_shared_memory_key s" and ?d = "desired_size (rw_shared_memory_size_mb s)"
  note defs = rw_OpenSharedMemory_def Let_def open_or_create_def CHECK_def deref_def or_throw_def
  obtain w1 where fl: "file_lock api (rw_file_lock_path s) w = Some w1"
    using run by (cases "file_lock api (rw_file_lock_path s) w") (simp_all add: defs)
  obtain h w2 where oc: "shm_open_or_create api ?k w1 = Some (h, w2)"
    using run fl by (cases "shm_open_or_create api ?k w1") (auto simp: defs)
  define w3 where "w3 = (if shm_get_size api h w2 = 0 then the (shm_truncate api h ?d w2) else w2)"
  have t: "w3 = w2 \<or> shm_truncate api h ?d w2 = Some w3"
    using run fl oc by (cases "shm_truncate api h ?d w2") (auto simp: defs w3_def)
  have R: "rbind (if shm_get_size api h w3 = ?d then Inr () else Inl Exit) (\<lambda>_. rbind (mapped_region api h w3) (\<lambda>r.
      Inr (s\<lparr>sm_shared_memory := Some h, sm_mapped_region := Some r\<rparr>, file_unlock api (rw_file_lock_path s) w3))) = Inr (s', w')"
    using run fl oc by (cases "shm_truncate api h ?d w2") (auto simp: defs w3_def split: if_splits)
  then have size: "shm_get_size api h w3 = ?d" by (auto split: if_splits)
  with R obtain r where r: "mapped_region api h w3 = Inr r" and s': "sm_mapped_region s' = Some r"
    and w': "w' = file_unlock api (rw_file_lock_path s) w3"
    by (cases "mapped_region api h w3") auto
  from oc
have "names w2 ?k = Some h" using boost_lawsD(2) [OF L] by blast
  then have n3: "names w3 ?k = Some h" using t boost_lawsD(5) [OF L] by metis
  then obtain bs where bs: "mem w3 h = Some bs" using boost_lawsD(3) [OF L] by blast
  then have "int (length bs) = ?d" using boost_lawsD(4) [OF L] size by metis
  then have len: "length bs = unat (rw_shared_memory_size_mb s) * 2 ^ 20"
    unfolding desired_size_exact [OF mb] of_nat_eq_iff .
  obtain n where n: "shm_map api h w3 = Some n" "r = \<lparr> rg_handle = h, rg_size = n \<rparr>"
    using r by (auto simp: mapped_region_def result_iffs)
  have "n = word_of_nat (length bs)" using boost_lawsD(7) [OF L bs n(1)] .
  then show ?thesis using n3 bs len n(2) s' boost_lawsD(9,10) [OF L] unfolding w' by auto
qed

lemma ro_open_block:
  assumes L: "boost_laws api names mem" and run: "ReadOnlySharedMemory api release key w = Inr s"
    and h: "names w key = Some h" "mem w h = Some bs" "bs \<noteq> []"
  shows "ro_is_available s \<and> sm_mapped_region s = Some \<lparr> rg_handle = h, rg_size = word_of_nat (length bs) \<rparr>"
proof -
  have o: "shm_open_only api key w = Some h" using boost_lawsD(1) [OF L] h(1) by simp
  have "shm_get_size api h w \<noteq> 0" using boost_lawsD(4) [OF L h(2)] h(3) by simp
  with run o obtain r where r: "mapped_region api h w = Inr r" "ro_is_available s" "sm_mapped_region s = Some r"
    by (auto simp: ReadOnlySharedMemory_def SharedMemory_def ro_OpenSharedMemory_def shared_memory.extend_def result_iffs)
  then obtain n where "shm_map api h w = Some n" "r = \<lparr> rg_handle = h, rg_size = n \<rparr>"
    by (auto simp: mapped_region_def result_iffs)
  then show ?thesis using boost_lawsD(7) [OF L h(2)] r by blast
qed

lemma unat_plus_cases:
  fixes a b :: "64 word"
  shows "unat (a + b) = (if unat a + unat b < 2 ^ 64 then unat a + unat b else unat a + unat b - 2 ^ 64)"
proof -
  have "unat a < 2 ^ 64" "unat b < 2 ^ 64" using unsigned_less [of a, where ?'a = nat] unsigned_less [of b, where ?'a = nat] by simp_all
  then show ?thesis unfolding unat_word_ariths(1) by (simp add: mod_if)
qed

lemma ro_copy_available:
  assumes L: "boost_laws api names mem" and s: "ro_is_available s" "sm_mapped_region s = Some \<lparr> rg_handle = h, rg_size = n \<rparr>"
    and bs: "mem w h = Some bs" "length bs = unat n"
  shows "ro_copy api release result now node data s w =
    (let off = unat (ni_offset node); len = unat (ni_length node) in
     if now > ni_expired_timestamp_ns node then Inr (False, data, s)
     else if off + len \<le> unat n then Inr (result, take len (drop off bs), s)
     else if off + len < 2 ^ 64 \<or> unat n < off + len - 2 ^ 64 then Inr (False, data, s\<lparr>ro_is_available := False\<rparr>)
     else Inl Undefined)"
proof -
  let ?off = "unat (ni_offset node)" and ?len = "unat (ni_length node)"
  have copy: "map (\<lambda>i. shm_byte api h (?off + i) w) [0..<?len] = take ?len (drop ?off bs)" if "?off + ?len \<le> unat n"
    by (rule nth_equalityI) (use that bs boost_lawsD(8) [OF L bs(1)] in auto)
  have gt: "rg_size r < ni_offset node + ni_length node \<longleftrightarrow> unat (rg_size r) < unat (ni_offset node + ni_length node)" for r
    by (rule word_less_nat_alt)
  have lt: "unat n < 2 ^ 64" using unsigned_less [of n, where ?'a = nat] by simp
  show ?thesis
    using s copy lt by (auto simp: ro_copy_def CheckIfAvailable_def deref_def region_bytes_def Let_def gt unat_plus_cases)
qed

subsection \<open>A library that keeps the contract\<close>

record mem_world =
  mw_names :: "string \<rightharpoonup> nat"
  mw_mem :: "nat \<rightharpoonup> 8 word list"
  mw_next :: nat

definition zeros :: "nat \<Rightarrow> 8 word list" where
  "zeros n = replicate n 0"

definition memory_open :: "string \<Rightarrow> mem_world \<Rightarrow> (nat \<times> mem_world) option" where
  "memory_open k w =
     (case mw_names w k of
        Some h \<Rightarrow> if mw_mem w h = None then None else Some (h, w)
      | None \<Rightarrow> Some (mw_next w, w\<lparr>mw_names := (mw_names w)(k \<mapsto> mw_next w), mw_mem := (mw_mem w)(mw_next w \<mapsto> []),
                  mw_next := Suc (mw_next w)\<rparr>))"

definition memory_truncate :: "nat \<Rightarrow> int \<Rightarrow> mem_world \<Rightarrow> mem_world option" where
  "memory_truncate h n w =
     (case mw_mem w h of
        None \<Rightarrow> None
      | Some bs \<Rightarrow>
          if n < 0 then None
          else Some (w\<lparr>mw_mem := (mw_mem w)(h \<mapsto> take (nat n) bs @ zeros (nat n - length bs))\<rparr>))"

text \<open>A name whose object is gone counts as absent.\<close>

definition memory_names :: "mem_world \<Rightarrow> string \<rightharpoonup> nat" where
  "memory_names w k = (case mw_names w k of None \<Rightarrow> None | Some h \<Rightarrow> if mw_mem w h = None then None else Some h)"

definition memory_boost :: "mem_world boost_ipc" where
  "memory_boost = \<lparr>
     shm_open_only = (\<lambda>k w. memory_names w k),
     shm_open_or_create = memory_open,
     shm_get_size = (\<lambda>h w. case mw_mem w h of None \<Rightarrow> 0 | Some bs \<Rightarrow> int (length bs)),
     shm_truncate = memory_truncate,
     shm_remove = (\<lambda>k w. w\<lparr>mw_names := (mw_names w)(k := None)\<rparr>),
     shm_map = (\<lambda>h w. case mw_mem w h of None \<Rightarrow> None | Some bs \<Rightarrow> if bs = [] then None else Some (word_of_nat (length bs))),
     shm_byte = (\<lambda>h i w. case mw_mem w h of None \<Rightarrow> 0 | Some bs \<Rightarrow> if i < length bs then bs ! i else 0),
     path_exists = (\<lambda>path w. True), create_file = (\<lambda>path w. Some w), file_lock = (\<lambda>path w. Some w),
     file_unlock = (\<lambda>path w. w) \<rparr>"

lemma length_zeros [simp]: "length (zeros n) = n"
  by (simp add: zeros_def)

lemma memory_truncate_laws:
  assumes "memory_truncate h n w = Some w'"
  shows "memory_names w' k = memory_names w k" "\<exists>bs. mw_mem w' h = Some bs \<and> int (length bs) = n"
  using assms by (auto simp: memory_truncate_def memory_names_def split: option.splits if_splits)

lemma memory_open_laws:
  assumes "memory_open k w = Some (h, w')"
  shows "memory_names w' k = Some h" "memory_names w k = None \<Longrightarrow> mw_mem w' h = Some []"
    "memory_names w k = Some h' \<Longrightarrow> h' = h \<and> mw_mem w' h = mw_mem w h"
  using assms by (auto simp: memory_open_def memory_names_def split: option.splits if_splits)

lemma memory_boost_laws: "boost_laws memory_boost memory_names mw_mem"
  unfolding boost_laws_def
proof (intro conjI allI impI, goal_cases)
  case (6 k w h)
  then show ?case by (auto simp: memory_names_def split: option.splits if_splits)
qed (auto simp: memory_boost_def memory_open_laws memory_truncate_laws dest: memory_open_laws(3) split: if_splits)

subsection \<open>Properties\<close>

text \<open>
  (C22) The writer's block and what a reader gets out of it.  In a release build a read-write block of 1 to 4095
  MB that opens is mapped at exactly its size, whatever was there before.  A reader that opens the
  block, and any bytes that are in it by then: an expired node is refused; a node inside the block is read exactly; a
  node outside is refused and makes the next read map the block again, unless the 64-bit sum of its offset and
  length wraps back into the block, when the copy runs outside the region.  The overload for vectors
  returns false also for what it has read.
\<close>

theorem shm_reader_sees_block:
  assumes L: "boost_laws api names mem"
    and wr: "ReadWriteSharedMemory api True key mb w = Inr (s, w1)" "unat mb < 4096" "names w1 key = Some h"
    and rd: "ReadOnlySharedMemory api release key w2 = Inr rd" "names w2 key = Some h" "mem w2 h = Some bs2"
      "length bs2 = unat mb * 2 ^ 20"
    and bs: "mem w3 h = Some bs" "length bs = unat mb * 2 ^ 20"
  shows "sm_mapped_region s = Some \<lparr> rg_handle = h, rg_size = word_of_nat (unat mb * 2 ^ 20) \<rparr> \<and>
    (\<forall>result \<in> {True, False}.
       (if result then ro_Read_string else ro_Read_vector) api release now node data rd w3 =
       (let off = unat (ni_offset node); len = unat (ni_length node); size = unat mb * 2 ^ 20 in
        if now > ni_expired_timestamp_ns node then Inr (False, data, rd)
        else if off + len \<le> size then Inr (result, take len (drop off bs), rd)
        else if off + len < 2 ^ 64 \<or> size < off + len - 2 ^ 64 then Inr (False, data, rd\<lparr>ro_is_available := False\<rparr>)
        else Inl Undefined))"
proof -
  let ?n = "unat mb * 2 ^ 20"
  have key: "mb > 0" and o: "\<exists>s0. rw_OpenSharedMemory api True s0 w = Inr (s, w1) \<and> sm_shared_memory_key s0 = key \<and>
      rw_shared_memory_size_mb s0 = mb"
    using wr(1) by (auto simp: ReadWriteSharedMemory_def SharedMemory_def shared_memory.extend_def result_iffs)
  have reg: "sm_mapped_region s = Some \<lparr> rg_handle = h, rg_size = word_of_nat ?n \<rparr>"
    using rw_open_block [OF L] o wr(2,3) by fastforce
  have "bs2 \<noteq> []" using rd(4) key by (auto simp: word_less_nat_alt)
  then have av: "ro_is_available rd" "sm_mapped_region rd = Some \<lparr> rg_handle = h, rg_size = word_of_nat ?n \<rparr>"
    using ro_open_block [OF L rd(1-3)] rd(4) by simp_all
  have n: "unat (word_of_nat ?n :: 64 word) = ?n" unfolding unsigned_of_nat of_nat_id by (rule take_bit_nat_eq_self) (use wr(2) in simp)
  have "length bs = unat (word_of_nat ?n :: 64 word)" using bs(2) n by simp
  note copy = ro_copy_available [OF L av bs(1) this, unfolded n]
  show ?thesis using reg copy unfolding ro_Read_string_def ro_Read_vector_def Let_def by simp
qed

theorem shm_reader_sees_block_witness:
  "\<exists>s w1 rd.
     ReadWriteSharedMemory memory_boost True ''q'' 1 \<lparr> mw_names = Map.empty, mw_mem = Map.empty, mw_next = 0 \<rparr> = Inr (s, w1) \<and>
     ReadOnlySharedMemory memory_boost True ''q'' w1 = Inr rd \<and>
     ro_Read_string memory_boost True 5 (NodeInfo\<lparr>ni_offset := 1048575, ni_length := 1, ni_expired_timestamp_ns := 9\<rparr>) [] rd w1 =
       Inr (True, [0], rd) \<and>
     ro_Read_string memory_boost True 5 (NodeInfo\<lparr>ni_offset := 1, ni_length := 0xFFFFFFFFFFFFFFFF, ni_expired_timestamp_ns := 9\<rparr>) [] rd w1 =
       Inl Undefined"
proof -
  let ?w = "\<lparr> mw_names = Map.empty, mw_mem = Map.empty, mw_next = 0 \<rparr> :: mem_world"
  let ?w1 = "\<lparr> mw_names = [''q'' \<mapsto> 0], mw_mem = [0 \<mapsto> zeros 1048576], mw_next = 1 \<rparr> :: mem_world"
  let ?r = "\<lparr> rg_handle = 0, rg_size = 1048576 \<rparr>"
  have nz: "zeros 1048576 \<noteq> []" using length_zeros [of 1048576] by (metis list.size(3) zero_neq_numeral)
  let ?s = "\<lparr> sm_is_readonly = False, sm_shared_memory_key = ''q'', sm_shared_memory = Some 0, sm_mapped_region = Some ?r,
      rw_file_lock_path = lock_path ''q'', rw_shared_memory_size_mb = 1, rw_nodes = [], rw_total_size_bytes = 0,
      rw_free_size_bytes = 0, rw_free_offset = 0 \<rparr> :: read_write_shm"
  let ?rd = "\<lparr> sm_is_readonly = True, sm_shared_memory_key = ''q'', sm_shared_memory = Some 0, sm_mapped_region = Some ?r,
      ro_is_available = True \<rparr> :: read_only_shm"
  have d: "desired_size 1 = 1048576" by (simp add: desired_size_def)
  have wr: "ReadWriteSharedMemory memory_boost True ''q'' 1 ?w = Inr (?s, ?w1)"
    using nz by (simp add: ReadWriteSharedMemory_def SharedMemory_def shared_memory.extend_def CHECK_def rw_OpenSharedMemory_def d
        memory_boost_def or_throw_def open_or_create_def memory_open_def memory_truncate_def deref_def mapped_region_def)
  have rd: "ReadOnlySharedMemory memory_boost True ''q'' ?w1 = Inr ?rd"
    using nz by (simp add: ReadOnlySharedMemory_def SharedMemory_def shared_memory.extend_def CHECK_def ro_OpenSharedMemory_def
        memory_boost_def memory_names_def mapped_region_def or_throw_def)
  have h: "memory_names ?w1 ''q'' = Some 0" by (simp add: memory_names_def)
  have m: "mw_mem ?w1 0 = Some (zeros 1048576)" and len: "length (zeros 1048576) = unat (1 :: 32 word) * 2 ^ 20" by simp_all
  have small: "unat (1 :: 32 word) < 4096" by simp
  note reads = shm_reader_sees_block [OF memory_boost_laws wr small h rd h m len m len, THEN conjunct2, rule_format, of True, simplified]
  have z: "take 1 (drop 1048575 (zeros 1048576)) = [0]" by (simp add: zeros_def)
  have "ro_Read_string memory_boost True 5 (NodeInfo\<lparr>ni_offset := 1048575, ni_length := 1, ni_expired_timestamp_ns := 9\<rparr>) [] ?rd ?w1 =
       Inr (True, [0], ?rd)"
    using z by (simp add: reads NodeInfo_def Let_def)
  moreover have "ro_Read_string memory_boost True 5 (NodeInfo\<lparr>ni_offset := 1, ni_length := 0xFFFFFFFFFFFFFFFF, ni_expired_timestamp_ns := 9\<rparr>) [] ?rd ?w1 =
       Inl Undefined"
    by (simp add: reads NodeInfo_def Let_def)
  ultimately show ?thesis using wr rd by blast
qed

text \<open>The tables agree: a thread's own entry is the common one, and blocks are created once per key.\<close>

definition ipc_inv :: "ipc_tables \<times> (nat \<times> string \<times> nat) list \<Rightarrow> bool" where
  "ipc_inv c \<longleftrightarrow> (case c of (s, rs) \<Rightarrow>
     (\<forall>t key b. local_shared_memory_map s t key = Some b \<longrightarrow> central_shared_memory_map s key = Some b) \<and>
     (\<forall>key b. central_shared_memory_map s key = Some b \<longrightarrow> b < ipc_next s) \<and>
     inj_on (central_shared_memory_map s) (dom (central_shared_memory_map s)) \<and>
     (\<forall>(t, key, b) \<in> set rs. central_shared_memory_map s key = Some b))"

lemma ipc_inv_init: "ipc_inv (IpcMessageQueue, [])"
  by (simp add: ipc_inv_def IpcMessageQueue_def)

lemma ipc_invD:
  assumes "ipc_inv (s, rs)"
  shows "local_shared_memory_map s t key = Some b \<Longrightarrow> central_shared_memory_map s key = Some b"
    "central_shared_memory_map s key = Some b \<Longrightarrow> b < ipc_next s"
    "central_shared_memory_map s key = Some b \<Longrightarrow> central_shared_memory_map s key' = Some b \<Longrightarrow> key = key'"
    "(t, key, b) \<in> set rs \<Longrightarrow> central_shared_memory_map s key = Some b"
  using assms by (auto simp: ipc_inv_def inj_on_def dom_def)

lemma ipc_invI:
  assumes "\<And>t key b. local_shared_memory_map s t key = Some b \<Longrightarrow> central_shared_memory_map s key = Some b"
    "\<And>key b. central_shared_memory_map s key = Some b \<Longrightarrow> b < ipc_next s"
    "\<And>key key' b. central_shared_memory_map s key = Some b \<Longrightarrow> central_shared_memory_map s key' = Some b \<Longrightarrow> key = key'"
    "\<And>t key b. (t, key, b) \<in> set rs \<Longrightarrow> central_shared_memory_map s key = Some b"
  shows "ipc_inv (s, rs)"
  using assms by (fastforce simp: ipc_inv_def inj_on_def dom_def)

lemma ipc_inv_central:
  assumes inv: "ipc_inv (s, rs)" and c: "central_find t key s = (b, s')"
  shows "ipc_inv (s', rs @ [(t, key, b)])"
proof (cases "central_shared_memory_map s key")
  case None
  then have s': "central_shared_memory_map s' = (central_shared_memory_map s)(key \<mapsto> b)" "b = ipc_next s" "ipc_next s' = Suc b"
    "\<And>t' k. local_shared_memory_map s' t' k = (if t' = t \<and> k = key then Some b else local_shared_memory_map s t' k)"
    using c by (auto simp: central_find_def)
  have fresh: "central_shared_memory_map s k \<noteq> Some b" for k using ipc_invD(2) [OF inv, of k b] s'(2) by blast
  show ?thesis
  proof (rule ipc_invI)
    show "central_shared_memory_map s' k = Some x" if "local_shared_memory_map s' t' k = Some x" for t' k x
      using that None ipc_invD(1) [OF inv, of t' k x] by (auto simp: s'(1,4) split: if_splits)
    show "x < ipc_next s'" if "central_shared_memory_map s' k = Some x" for k x
      using that ipc_invD(2) [OF inv, of k x] by (auto simp: s'(1,3) s'(2) [symmetric] split: if_splits)
    show "k = k'" if "central_shared_memory_map s' k = Some x" "central_shared_memory_map s' k' = Some x" for k k' x
      using that fresh ipc_invD(3) [OF inv, of k x k'] by (auto simp: s'(1) split: if_splits)
    show "central_shared_memory_map s' k = Some x" if "(t', k, x) \<in> set (rs @ [(t, key, b)])" for t' k x
      using that None ipc_invD(4) [OF inv, of t' k x] by (auto simp: s'(1))
  qed
next
  case (Some b')
  then have s': "central_shared_memory_map s' = central_shared_memory_map s" "b = b'" "ipc_next s' = ipc_next s"
    "\<And>t' k. local_shared_memory_map s' t' k = (if t' = t \<and> k = key then Some b else local_shared_memory_map s t' k)"
    using c by (auto simp: central_find_def)
  show ?thesis
    by (rule ipc_invI) (use Some s' ipc_invD [OF inv] in \<open>auto split: if_splits\<close>)
qed

lemma ipc_inv_step:
  assumes "ipc_step c c'" "ipc_inv c"
  shows "ipc_inv c'"
  using assms
proof (induction rule: ipc_step.induct)
  case (hit s t key b s' rs)
  then have l: "local_shared_memory_map s t key = Some b" and s': "s' = s" by (simp_all add: local_find_def split: option.splits)
  show ?case unfolding s'
    by (rule ipc_invI) (use ipc_invD [OF hit.prems] l in auto)
next
  case (miss s t key s' rs)
  then have "s' = s\<lparr>ipc_pc_of := (ipc_pc_of s)(t := Missed key)\<rparr>" by (simp add: local_find_def split: option.splits)
  then show ?case using miss.prems by (simp add: ipc_inv_def)
next
  case (central s t key b s' rs)
  then show ?case using ipc_inv_central by blast
qed

lemma ipc_inv_reachable: "ipc_step\<^sup>*\<^sup>* (IpcMessageQueue, []) c \<Longrightarrow> ipc_inv c"
  by (induction rule: rtranclp_induct) (auto intro: ipc_inv_init ipc_inv_step)

text \<open>
  (C23) One block per key: however the threads that call \<open>IpcMessageQueue::SharedMemory\<close> interleave, two calls return
  the same block exactly when they ask for the same key.
\<close>

theorem ipc_one_block_per_key:
  assumes "ipc_step\<^sup>*\<^sup>* (IpcMessageQueue, []) (s, rs)" "(t1, key1, b1) \<in> set rs" "(t2, key2, b2) \<in> set rs"
  shows "b1 = b2 \<longleftrightarrow> key1 = key2"
proof -
  have inv: "ipc_inv (s, rs)" by (rule ipc_inv_reachable [OF assms(1)])
  then have "central_shared_memory_map s key1 = Some b1" "central_shared_memory_map s key2 = Some b2"
    using ipc_invD(4) assms(2,3) by blast+
  then show ?thesis using ipc_invD(3) [OF inv] by auto
qed

text \<open>Two threads miss the same key in their own tables before either takes the mutex.\<close>

theorem ipc_one_block_per_key_witness:
  "\<exists>s. ipc_step\<^sup>*\<^sup>* (IpcMessageQueue, []) (s, [(1, ''a'', 0), (2, ''a'', 0), (1, ''a'', 0), (1, ''b'', 1)]) \<and>
    ((0 :: nat) = 0 \<longleftrightarrow> ''a'' = ''a'') \<and> ((0 :: nat) = 1 \<longleftrightarrow> ''a'' = ''b'')"
proof -
  let ?q = "IpcMessageQueue"
  let ?s1 = "snd (local_find 1 ''a'' ?q)"
  let ?s2 = "snd (local_find 2 ''a'' ?s1)"
  let ?s3 = "snd (central_find 1 ''a'' ?s2)"
  let ?s4 = "snd (central_find 2 ''a'' ?s3)"
  let ?s5 = "snd (local_find 1 ''b'' ?s4)"
  let ?s6 = "snd (central_find 1 ''b'' ?s5)"
  note defs = local_find_def central_find_def IpcMessageQueue_def
  have "ipc_step (?q, []) (?s1, [])" by (rule ipc_step.miss [of _ 1 "''a''"]) (simp_all add: defs)
  moreover have "ipc_step (?s1, []) (?s2, [])" by (rule ipc_step.miss [of _ 2 "''a''"]) (simp_all add: defs)
  moreover have "ipc_step (?s2, []) (?s3, [] @ [(1, ''a'', 0)])" by (rule ipc_step.central) (simp_all add: defs)
  moreover have "ipc_step (?s3, [(1, ''a'', 0)]) (?s4, [(1, ''a'', 0)] @ [(2, ''a'', 0)])"
    by (rule ipc_step.central) (simp_all add: defs)
  moreover have "ipc_step (?s4, [(1, ''a'', 0), (2, ''a'', 0)]) (?s4, [(1, ''a'', 0), (2, ''a'', 0)] @ [(1, ''a'', 0)])"
    by (rule ipc_step.hit) (simp_all add: defs)
  moreover have "ipc_step (?s4, [(1, ''a'', 0), (2, ''a'', 0), (1, ''a'', 0)]) (?s5, [(1, ''a'', 0), (2, ''a'', 0), (1, ''a'', 0)])"
    by (rule ipc_step.miss [of _ 1 "''b''"]) (simp_all add: defs)
  moreover have "ipc_step (?s5, [(1, ''a'', 0), (2, ''a'', 0), (1, ''a'', 0)])
      (?s6, [(1, ''a'', 0), (2, ''a'', 0), (1, ''a'', 0)] @ [(1, ''b'', 1)])"
    by (rule ipc_step.central) (simp_all add: defs)
  ultimately have run: "ipc_step\<^sup>*\<^sup>* (?q, []) (?s6, [(1, ''a'', 0), (2, ''a'', 0), (1, ''a'', 0), (1, ''b'', 1)])"
    by simp
  show ?thesis using run ipc_one_block_per_key [OF run, of 1 "''a''" 0 2 "''a''" 0]
      ipc_one_block_per_key [OF run, of 1 "''a''" 0 1 "''b''" 1] by auto
qed

end
