(* ===== verification/Http_Client.thy ===== *)
theory Http_Client
  imports Redis_Proxy
begin

text \<open>
  The HTTP client of \<^verbatim>\<open>src/http/http_client/http_client.cc\<close> and the random numbers of \<^verbatim>\<open>src/util/random.h\<close>.  libcurl is a
  record of functions on a world of type \<open>'w\<close>: \<open>curl_easy_perform\<close> gets the options that were set, in order, and
  the write function, which it calls on the response object.
\<close>

subsection \<open>libcurl\<close>

datatype curl_opt =
    CURLOPT_VERBOSE | CURLOPT_DEBUGFUNCTION | CURLOPT_URL string | CURLOPT_POST | CURLOPT_POSTFIELDS string
  | CURLOPT_READFUNCTION_NULL | CURLOPT_WRITEFUNCTION | CURLOPT_WRITEDATA | CURLOPT_NOSIGNAL
  | CURLOPT_SSL_VERIFYPEER bool | CURLOPT_SSL_VERIFYHOST bool | CURLOPT_CAINFO string
  | CURLOPT_TIMEOUT_MS int | CURLOPT_CONNECTTIMEOUT_MS int

type_synonym write_callback = "string option \<Rightarrow> 64 word \<Rightarrow> 64 word \<Rightarrow> string option \<Rightarrow> 64 word \<times> string option"

record 'w libcurl =
  curl_easy_init :: "'w \<Rightarrow> nat option \<times> 'w"
  curl_easy_perform :: "nat \<Rightarrow> curl_opt list \<Rightarrow> write_callback \<Rightarrow> string option \<Rightarrow> 'w \<Rightarrow> int \<times> string option \<times> 'w"
  curl_easy_cleanup :: "nat \<Rightarrow> 'w \<Rightarrow> 'w"

definition CURLE_FAILED_INIT :: int where
  "CURLE_FAILED_INIT = 2"

subsection \<open>The client\<close>

datatype curl_infotype =
    CURLINFO_TEXT | CURLINFO_HEADER_IN | CURLINFO_HEADER_OUT | CURLINFO_DATA_IN | CURLINFO_DATA_OUT | CURLINFO_OTHER

text \<open>The line that the debug function logs, if any.\<close>

fun debug_func :: "curl_infotype \<Rightarrow> string \<Rightarrow> string option" where
  "debug_func CURLINFO_TEXT p_data = Some (''[TEXT]'' @ c_str p_data)"
| "debug_func CURLINFO_HEADER_IN p_data = Some (''[HEADER_IN]'' @ c_str p_data)"
| "debug_func CURLINFO_HEADER_OUT p_data = Some (''[HEADER_OUT]'' @ c_str p_data)"
| "debug_func CURLINFO_DATA_IN p_data = Some (''[DATA_IN]'' @ c_str p_data)"
| "debug_func CURLINFO_DATA_OUT p_data = Some (''[DATA_OUT]'' @ c_str p_data)"
| "debug_func CURLINFO_OTHER p_data = None"

text \<open>The buffer holds \<open>size * nmemb\<close> bytes; null pointers are refused with the largest \<open>size_t\<close>.\<close>

definition write_callback_func :: write_callback where
  "write_callback_func buffer sz nmemb str =
     (case (str, buffer) of
        (Some s, Some b) \<Rightarrow> (nmemb, Some (s @ take (unat (sz * nmemb)) b))
      | _ \<Rightarrow> (- 1, str))"

definition ssl_options :: "string option \<Rightarrow> curl_opt list" where
  "ssl_options ca_path =
     (case ca_path of
        None \<Rightarrow> [CURLOPT_SSL_VERIFYPEER False, CURLOPT_SSL_VERIFYHOST False]
      | Some path \<Rightarrow> [CURLOPT_SSL_VERIFYPEER True, CURLOPT_CAINFO path])"

definition debug_options :: "bool \<Rightarrow> curl_opt list" where
  "debug_options debug = (if debug then [CURLOPT_VERBOSE, CURLOPT_DEBUGFUNCTION] else [])"

definition http_Post :: "'w libcurl \<Rightarrow> bool \<Rightarrow> string \<Rightarrow> string \<Rightarrow> int \<Rightarrow> int \<Rightarrow> string option \<Rightarrow> string option \<Rightarrow> 'w \<Rightarrow>
    int \<times> string option \<times> 'w" where
  "http_Post C debug url post_params timeout_ms conn_timeout_ms resp ca_path w =
     (case curl_easy_init C w of
        (None, w1) \<Rightarrow> (CURLE_FAILED_INIT, resp, w1)
      | (Some curl, w1) \<Rightarrow>
          let opts = debug_options debug @
                [CURLOPT_URL (c_str url), CURLOPT_POST, CURLOPT_POSTFIELDS (c_str post_params), CURLOPT_READFUNCTION_NULL,
                 CURLOPT_WRITEFUNCTION, CURLOPT_WRITEDATA, CURLOPT_NOSIGNAL] @
                ssl_options ca_path @
                [CURLOPT_NOSIGNAL, CURLOPT_TIMEOUT_MS timeout_ms, CURLOPT_CONNECTTIMEOUT_MS conn_timeout_ms];
              (res, resp', w2) = curl_easy_perform C curl opts write_callback_func resp w1
          in (res, resp', curl_easy_cleanup C curl w2))"

definition http_Get :: "'w libcurl \<Rightarrow> bool \<Rightarrow> string \<Rightarrow> int \<Rightarrow> int \<Rightarrow> string option \<Rightarrow> string option \<Rightarrow> 'w \<Rightarrow>
    int \<times> string option \<times> 'w" where
  "http_Get C debug url timeout_ms conn_timeout_ms resp ca_path w =
     (case curl_easy_init C w of
        (None, w1) \<Rightarrow> (CURLE_FAILED_INIT, resp, w1)
      | (Some curl, w1) \<Rightarrow>
          let opts = debug_options debug @
                [CURLOPT_URL (c_str url), CURLOPT_READFUNCTION_NULL, CURLOPT_WRITEFUNCTION, CURLOPT_WRITEDATA, CURLOPT_NOSIGNAL] @
                ssl_options ca_path @
                [CURLOPT_NOSIGNAL, CURLOPT_TIMEOUT_MS timeout_ms, CURLOPT_CONNECTTIMEOUT_MS conn_timeout_ms];
              (res, resp', w2) = curl_easy_perform C curl opts write_callback_func resp w1
          in (res, resp', curl_easy_cleanup C curl w2))"

subsection \<open>What a transfer leaves in the response\<close>

text \<open>
  libcurl hands the body over in pieces of at most 16 kB with \<open>size\<close> 1, and gives up with
  \<open>CURLE_WRITE_ERROR\<close> when the write function does not accept a whole piece.
\<close>

fun curl_feed :: "write_callback \<Rightarrow> string list \<Rightarrow> int \<Rightarrow> string option \<Rightarrow> int \<times> string option" where
  "curl_feed cb [] code resp = (code, resp)"
| "curl_feed cb (b # bs) code resp =
     (case cb (Some b) 1 (word_of_nat (length b)) resp of
        (n, resp') \<Rightarrow> if n = word_of_nat (length b) then curl_feed cb bs code resp' else (23, resp'))"

lemma curl_feed_collects:
  "\<forall>b \<in> set bs. length b < 2 ^ 64 \<Longrightarrow> curl_feed write_callback_func bs code (Some str) = (code, Some (str @ concat bs))"
proof (induction bs arbitrary: str)
  case (Cons b bs)
  then have "unat (word_of_nat (length b) :: 64 word) = length b" by (simp add: unsigned_of_nat take_bit_nat_eq_self)
  then show ?case using Cons by (simp add: write_callback_func_def)
qed simp

lemma curl_feed_null:
  assumes "bs \<noteq> []" "\<forall>b \<in> set bs. length b < 2 ^ 63"
  shows "curl_feed write_callback_func bs code None = (23, None)"
proof -
  obtain b bs' where bs: "bs = b # bs'" using assms(1) by (cases bs) auto
  have "unat (word_of_nat (length b) :: 64 word) = length b" using assms(2) bs by (simp add: unsigned_of_nat take_bit_nat_eq_self)
  moreover have "unat (- 1 :: 64 word) = 2 ^ 64 - 1" by (simp add: unsigned_minus_1_eq_mask mask_eq_exp_minus_1)
  moreover have "length b < 2 ^ 63" using assms(2) bs by simp
  ultimately have "(- 1 :: 64 word) \<noteq> word_of_nat (length b)" by auto
  then show ?thesis by (simp add: bs write_callback_func_def)
qed

text \<open>A GET over such a transfer appends the body to the response and releases its handle.\<close>

lemma http_Get_body:
  assumes "curl_easy_init C w = (Some h, w1)" "\<forall>b \<in> set bs. length b < 2 ^ 64"
    and "\<And>opts. curl_easy_perform C h opts write_callback_func (Some str) w1 =
      (let (code', resp') = curl_feed write_callback_func bs code (Some str) in (code', resp', w2))"
  shows "http_Get C debug url t ct (Some str) ca w = (code, Some (str @ concat bs), curl_easy_cleanup C h w2)"
  using assms by (simp add: http_Get_def curl_feed_collects)

lemma http_Post_body:
  assumes "curl_easy_init C w = (Some h, w1)" "\<forall>b \<in> set bs. length b < 2 ^ 64"
    and "\<And>opts. curl_easy_perform C h opts write_callback_func (Some str) w1 =
      (let (code', resp') = curl_feed write_callback_func bs code (Some str) in (code', resp', w2))"
  shows "http_Post C debug url params t ct (Some str) ca w = (code, Some (str @ concat bs), curl_easy_cleanup C h w2)"
  using assms by (simp add: http_Post_def curl_feed_collects)

subsection \<open>Random numbers\<close>

text \<open>\<open>r\<close> is the result of \<open>rand_r\<close>, which is not negative; overflow and division by zero are undefined.\<close>

definition int32_ok :: "int \<Rightarrow> bool" where
  "int32_ok i \<longleftrightarrow> - (2 ^ 31) \<le> i \<and> i < 2 ^ 31"

definition RandInt2 :: "int \<Rightarrow> int \<Rightarrow> int \<Rightarrow> int option" where
  "RandInt2 r lo hi =
     (let d = hi - lo in
      if \<not> int32_ok d \<or> d = 0 then None
      else let x = lo + r mod \<bar>d\<bar> in if int32_ok x then Some x else None)"

definition RandInt1 :: "int \<Rightarrow> int \<Rightarrow> int option" where
  "RandInt1 r hi = (if hi = 0 then None else Some (r mod \<bar>hi\<bar>))"

text \<open>The upper bound is never returned, and a range of one number has no result.\<close>

lemma RandInt2_range:
  assumes "lo < hi" "int32_ok lo" "int32_ok hi" "hi - lo < 2 ^ 31"
  shows "\<exists>x. RandInt2 r lo hi = Some x \<and> lo \<le> x \<and> x < hi"
proof -
  define x where "x = lo + r mod (hi - lo)"
  have "0 < hi - lo" using assms(1) by simp
  from pos_mod_sign [OF this, of r] pos_mod_bound [OF this, of r] have x: "lo \<le> x" "x < hi" unfolding x_def by linarith+
  then have "RandInt2 r lo hi = Some x" using assms by (simp add: RandInt2_def int32_ok_def x_def [symmetric])
  with x show ?thesis by blast
qed

lemma RandInt2_single: "RandInt2 r lo lo = None"
  by (simp add: RandInt2_def)

end
